theory Spec2Isabelle
  imports Main "HOL-Library.AList"
begin

section \<open>Data model\<close>

text \<open>
  The launcher server keeps its tables in module-level JavaScript objects keyed by instance
  id: \<^verbatim>\<open>runningProcesses\<close>, \<^verbatim>\<open>terminalProcesses\<close>, \<^verbatim>\<open>terminalLogs\<close> and \<^verbatim>\<open>logHistory\<close>
  (routes/instances.js), next to the array \<^verbatim>\<open>globalLogHistory\<close>, the socket server \<^verbatim>\<open>wss\<close>
  (utils/wsHelper.js) and the handle \<^verbatim>\<open>redisProcess\<close> (routes/dependencies.js).

  An object used as a dictionary is an association list: \<^verbatim>\<open>obj[k]\<close> is \<open>map_of\<close>,
  \<^verbatim>\<open>obj[k] = v\<close> is \<open>AList.update\<close>, \<^verbatim>\<open>delete obj[k]\<close> is \<open>AList.delete\<close> and
  \<^verbatim>\<open>Object.keys(obj)\<close> is the list of first components. The tables are written and the
  processes looked up under instance ids, which the create and import routes make with
  \<^verbatim>\<open>Date.now().toString()\<close>; no id is a name that every JavaScript object inherits (such
  as \<^verbatim>\<open>constructor\<close>). The log route reads its table under whatever id a request names,
  and is modelled with the inherited names (\<open>get_logs\<close>).
  A string is the list of its code units.

  The server runs one callback at a time, each to its end; a step of the model is one
  callback: a route, a handler of a child process, a connection. The model is of the
  server once \<^verbatim>\<open>init\<close> of wsHelper.js has made the socket server, which index.js does
  before it mounts any route. Reading and writing the disk does not fail.
\<close>

datatype ws_message =
    WELCOME
  | LOG string string
  | GLOBAL_LOG string
  | STATUS string string
  | TERMINAL_OUTPUT string string
  | TERMINAL_OPENED string

text \<open>
  A connected socket: \<open>readyOpen\<close> is \<^verbatim>\<open>ws.readyState === WebSocket.OPEN\<close>,
  \<open>inbox\<close> is everything the server has sent to it, oldest first.
\<close>

record client =
  readyOpen :: bool
  inbox :: "ws_message list"

text \<open>The port field of a record in data.json: a JSON number or a JSON string.\<close>

datatype js_port = PNum nat | PStr string

record proxy =
  protocol :: string
  host :: string
  pport :: string
  auth :: bool
  username :: string
  password :: string

record bot_instance =
  inst_id :: string
  inst_name :: string
  inst_path :: string
  inst_port :: "js_port option"
  inst_type :: "string option"
  inst_proxy :: "proxy option"

text \<open>What the server does to the world outside its own memory, in the order it does it.\<close>

datatype effect =
    Spawn nat string "string list" string
  | Kill nat string
  | Exec string
  | HttpRequest string string
  | Mkdir string

record server =
  instances :: "bot_instance list"
  redisKeepAlive :: bool
  redisPath :: "string option"
  files :: "(string \<times> string) list"
  dirs :: "string list"
  runningProcesses :: "(string \<times> nat) list"
  terminalProcesses :: "(string \<times> nat) list"
  terminalLogs :: "(string \<times> string list) list"
  logHistory :: "(string \<times> string list) list"
  globalLogHistory :: "string list"
  clients :: "client list"
  redisProcess :: "nat option"
  effects :: "effect list"
  next_handle :: nat
  hasStarted :: "(nat \<times> bool) list"
  startFailed :: "(nat \<times> bool) list"
  win32 :: bool
  execPath :: string

text \<open>
  The fields \<open>instances\<close>, \<open>redisKeepAlive\<close> and \<open>redisPath\<close> are the parts of data.json
  the modelled routes read (\<^verbatim>\<open>data.instances\<close>, \<^verbatim>\<open>data.settings?.redisKeepAlive === true\<close>,
  \<^verbatim>\<open>data.dependencies.redisPath\<close>); \<open>files\<close> and \<open>dirs\<close> are the rest of the disk.
  \<open>next_handle\<close> numbers the child processes that \<^verbatim>\<open>spawn\<close> returns, and \<open>hasStarted\<close>
  holds, for each child of the start route, the variable \<^verbatim>\<open>hasStarted\<close> that its output
  handlers close over; \<open>startFailed\<close> holds likewise, for each child of the Redis start
  route, the variable \<^verbatim>\<open>startFailed\<close> of the request that spawned it. \<open>win32\<close> is \<^verbatim>\<open>process.platform === 'win32'\<close> and \<open>execPath\<close> is
  \<^verbatim>\<open>process.execPath\<close>.
\<close>

definition init_server :: server where
  "init_server = \<lparr> instances = [], redisKeepAlive = False, redisPath = None, files = [], dirs = [],
     runningProcesses = [], terminalProcesses = [], terminalLogs = [], logHistory = [],
     globalLogHistory = [], clients = [], redisProcess = None, effects = [], next_handle = 0,
     hasStarted = [], startFailed = [], win32 = True, execPath = ''node'' \<rparr>"

section \<open>utils/wsHelper.js\<close>

definition MAX_HISTORY :: nat where
  "MAX_HISTORY = 500"

text \<open>\<^verbatim>\<open>ws.send\<close>: a socket transmits only while it is open.\<close>

definition ws_send :: "ws_message \<Rightarrow> client \<Rightarrow> client" where
  "ws_send m c = (if readyOpen c then c\<lparr>inbox := inbox c @ [m]\<rparr> else c)"

definition broadcast :: "ws_message \<Rightarrow> server \<Rightarrow> server" where
  "broadcast m s =
     s\<lparr>clients := map (\<lambda>c. if readyOpen c then ws_send m c else c) (clients s)\<rparr>"

definition wsBroadcastLog :: "string \<Rightarrow> string \<Rightarrow> server \<Rightarrow> server" where
  "wsBroadcastLog instanceId d s = broadcast (LOG instanceId d) s"

definition broadcastGlobalLog :: "string \<Rightarrow> server \<Rightarrow> server" where
  "broadcastGlobalLog message s =
     (let h1 = globalLogHistory s @ [message];
          h2 = (if length h1 > MAX_HISTORY then tl h1 else h1)
      in broadcast (GLOBAL_LOG message) (s\<lparr>globalLogHistory := h2\<rparr>))"

definition broadcastStatus :: "string \<Rightarrow> string \<Rightarrow> server \<Rightarrow> server" where
  "broadcastStatus instanceId status s = broadcast (STATUS instanceId status) s"

section \<open>routes/instances.js: log history\<close>

text \<open>\<^verbatim>\<open>logHistory[id] || []\<close>, and the same reading of \<^verbatim>\<open>terminalLogs\<close>.\<close>

definition instance_buffer :: "server \<Rightarrow> string \<Rightarrow> string list" where
  "instance_buffer s instanceId =
     (case map_of (logHistory s) instanceId of None \<Rightarrow> [] | Some h \<Rightarrow> h)"

definition terminal_buffer :: "server \<Rightarrow> string \<Rightarrow> string list" where
  "terminal_buffer s instanceId =
     (case map_of (terminalLogs s) instanceId of None \<Rightarrow> [] | Some h \<Rightarrow> h)"

definition broadcastLog :: "string \<Rightarrow> string \<Rightarrow> server \<Rightarrow> server" where
  "broadcastLog instanceId message s =
     (let h0 = (case map_of (logHistory s) instanceId of None \<Rightarrow> [] | Some h \<Rightarrow> h);
          h1 = h0 @ [message];
          h2 = (if length h1 > 1000 then tl h1 else h1)
      in wsBroadcastLog instanceId message
           (s\<lparr>logHistory := AList.update instanceId h2 (logHistory s)\<rparr>))"

text \<open>
  \<^verbatim>\<open>broadcastTerminalOutput\<close> is a closure that the terminal route makes after
  \<^verbatim>\<open>if (!terminalLogs[id]) terminalLogs[id] = []\<close>; entries of \<^verbatim>\<open>terminalLogs\<close> are
  never deleted, so the buffer exists at each call and the initialisation is folded into
  the function. Its fan-out to the sockets goes through \<^verbatim>\<open>getWss\<close>, which is not among
  the exports of wsHelper.js, and is left out.
\<close>

definition broadcastTerminalOutput :: "string \<Rightarrow> string \<Rightarrow> server \<Rightarrow> server" where
  "broadcastTerminalOutput instanceId output s =
     (let h0 = (case map_of (terminalLogs s) instanceId of None \<Rightarrow> [] | Some h \<Rightarrow> h);
          h1 = h0 @ [output];
          h2 = (if length h1 > 500 then tl h1 else h1)
      in s\<lparr>terminalLogs := AList.update instanceId h2 (terminalLogs s)\<rparr>)"




text \<open>Runs of appends, in any interleaving of the three kinds of buffer.\<close>

datatype log_event =
    AppendLog string string
  | AppendGlobal string
  | AppendTerminal string string

fun log_step :: "log_event \<Rightarrow> server \<Rightarrow> server" where
  "log_step (AppendLog i m) s = broadcastLog i m s"
| "log_step (AppendGlobal m) s = broadcastGlobalLog m s"
| "log_step (AppendTerminal i m) s = broadcastTerminalOutput i m s"

definition log_run :: "log_event list \<Rightarrow> server \<Rightarrow> server" where
  "log_run evs s = fold log_step evs s"

text \<open>The lines that a run appends to the buffer of instance \<open>i\<close>, in order.\<close>

fun lines_of :: "string \<Rightarrow> log_event list \<Rightarrow> string list" where
  "lines_of i [] = []"
| "lines_of i (AppendLog j m # evs) = (if j = i then m # lines_of i evs else lines_of i evs)"
| "lines_of i (AppendGlobal m # evs) = lines_of i evs"
| "lines_of i (AppendTerminal j m # evs) = lines_of i evs"

definition buffers_bounded :: "server \<Rightarrow> bool" where
  "buffers_bounded s \<longleftrightarrow>
     (\<forall>i. length (instance_buffer s i) \<le> 1000) \<and>
     length (globalLogHistory s) \<le> 500 \<and>
     (\<forall>i. length (terminal_buffer s i) \<le> 500)"

section \<open>JavaScript strings\<close>

text \<open>
  White space as \<^verbatim>\<open>String.prototype.trim\<close> and the class \<^verbatim>\<open>\s\<close> see it, among the code
  units a \<open>char\<close> can hold: tab, line feed, vertical tab, form feed, carriage return, space
  and the no-break space.
\<close>

definition js_whitespace :: "char \<Rightarrow> bool" where
  "js_whitespace c \<longleftrightarrow>
     c \<in> set [CHR 0x09, CHR 0x0A, CHR 0x0B, CHR 0x0C, CHR 0x0D, CHR 0x20, CHR 0xA0]"

definition js_digit :: "char \<Rightarrow> bool" where
  "js_digit c \<longleftrightarrow> c \<in> set ''0123456789''"

definition js_trim :: "string \<Rightarrow> string" where
  "js_trim t = rev (dropWhile js_whitespace (rev (dropWhile js_whitespace t)))"

definition digit_char :: "nat \<Rightarrow> char" where
  "digit_char d = char_of (48 + d)"

text \<open>\<^verbatim>\<open>String(n)\<close> for a natural number.\<close>

fun show_nat :: "nat \<Rightarrow> string" where
  "show_nat n =
     (if n < 10 then [digit_char n] else show_nat (n div 10) @ [digit_char (n mod 10)])"

declare show_nat.simps [simp del]

text \<open>\<^verbatim>\<open>path.join\<close>, without its normalisation.\<close>

definition path_join :: "string \<Rightarrow> string \<Rightarrow> string" where
  "path_join a b = a @ ''/'' @ b"

definition existsSync :: "server \<Rightarrow> string \<Rightarrow> bool" where
  "existsSync s p \<longleftrightarrow> p \<in> set (dirs s) \<or> map_of (files s) p \<noteq> None"

section \<open>utils/wsHelper.js and routes/instances.js: a socket connects\<close>

text \<open>
  The test \<^verbatim>\<open>ws.readyState === WebSocket.OPEN\<close> in front of a \<^verbatim>\<open>ws.send\<close>.
\<close>

definition send_if_open :: "ws_message \<Rightarrow> client \<Rightarrow> client" where
  "send_if_open m ws = (if readyOpen ws then ws_send m ws else ws)"

text \<open>A socket that is open receives the messages \<open>ms\<close>; a socket that is not, nothing.\<close>

definition deliver :: "ws_message list \<Rightarrow> client \<Rightarrow> client" where
  "deliver ms c = (if readyOpen c then c\<lparr>inbox := inbox c @ ms\<rparr> else c)"

text \<open>
  The handler that instances.js registers with \<^verbatim>\<open>registerConnectionHandler\<close>: the log
  history of every instance, then the terminal history of every instance and
  \<^verbatim>\<open>TERMINAL_OPENED\<close> where a terminal is running.
\<close>

definition log_history_handler :: "server \<Rightarrow> client \<Rightarrow> client" where
  "log_history_handler s ws =
     (let ws1 = fold (\<lambda>(i, h) c. fold (\<lambda>msg c'. send_if_open (LOG i msg) c') h c)
                  (logHistory s) ws;
          ws2 = fold (\<lambda>(i, h) c.
                   (let c1 = fold (\<lambda>msg c'. send_if_open (TERMINAL_OUTPUT i msg) c') h c
                    in if map_of (terminalProcesses s) i \<noteq> None
                       then send_if_open (TERMINAL_OPENED i) c1 else c1))
                  (terminalLogs s) ws1
      in ws2)"

definition connectionHandlers :: "(server \<Rightarrow> client \<Rightarrow> client) list" where
  "connectionHandlers = [log_history_handler]"

text \<open>
  The callback of \<^verbatim>\<open>wss.on('connection')\<close>. The socket library has added the socket,
  open, to \<^verbatim>\<open>wss.clients\<close> when it calls back; the callback runs to its end before any
  other handler of the server runs.
\<close>

definition connection :: "server \<Rightarrow> server" where
  "connection s =
     (let ws0 = \<lparr> readyOpen = True, inbox = [] \<rparr>;
          ws1 = ws_send WELCOME ws0;
          ws2 = fold (\<lambda>msg c. ws_send (GLOBAL_LOG msg) c) (globalLogHistory s) ws1;
          ws3 = fold (\<lambda>handler c. handler s c) connectionHandlers ws2
      in s\<lparr>clients := clients s @ [ws3]\<rparr>)"

text \<open>A socket closes: its \<^verbatim>\<open>readyState\<close> is no longer \<^verbatim>\<open>OPEN\<close>.\<close>

definition socket_closed :: "nat \<Rightarrow> server \<Rightarrow> server" where
  "socket_closed n s =
     (if n < length (clients s)
      then s\<lparr>clients := (clients s)[n := (clients s ! n)\<lparr>readyOpen := False\<rparr>]\<rparr> else s)"

text \<open>
  What a socket that connects to the server \<open>s\<close> is sent by the callback: the greeting,
  the global history, the log history of every instance, the terminal histories.
\<close>

definition log_replay :: "server \<Rightarrow> ws_message list" where
  "log_replay s = concat (map (\<lambda>(i, h). map (LOG i) h) (logHistory s))"

definition terminal_replay :: "server \<Rightarrow> ws_message list" where
  "terminal_replay s =
     concat (map (\<lambda>(i, h). map (TERMINAL_OUTPUT i) h @
                   (if map_of (terminalProcesses s) i \<noteq> None then [TERMINAL_OPENED i] else []))
               (terminalLogs s))"

definition replay :: "server \<Rightarrow> ws_message list" where
  "replay s = WELCOME # map GLOBAL_LOG (globalLogHistory s) @ log_replay s @ terminal_replay s"

text \<open>The log lines of instance \<open>i\<close> and the global lines among messages, in order.\<close>

fun logs_for :: "string \<Rightarrow> ws_message list \<Rightarrow> string list" where
  "logs_for i [] = []"
| "logs_for i (LOG j m # ms) = (if j = i then m # logs_for i ms else logs_for i ms)"
| "logs_for i (_ # ms) = logs_for i ms"

fun global_logs :: "ws_message list \<Rightarrow> string list" where
  "global_logs [] = []"
| "global_logs (GLOBAL_LOG m # ms) = m # global_logs ms"
| "global_logs (_ # ms) = global_logs ms"

text \<open>
  What happens on the channel, one handler at a time: every handler of the server reaches
  the sockets through \<^verbatim>\<open>broadcastLog\<close>, \<^verbatim>\<open>broadcastGlobalLog\<close> or \<^verbatim>\<open>broadcastStatus\<close>;
  sockets connect and close. \<open>live\<close> lists what the events of a run broadcast.
\<close>

datatype channel_event =
    Log string string
  | Global string
  | Status string string
  | Connects
  | Closes nat

fun channel_step :: "channel_event \<Rightarrow> server \<Rightarrow> server" where
  "channel_step (Log i m) s = broadcastLog i m s"
| "channel_step (Global m) s = broadcastGlobalLog m s"
| "channel_step (Status i st) s = broadcastStatus i st s"
| "channel_step Connects s = connection s"
| "channel_step (Closes n) s = socket_closed n s"

definition channel_run :: "channel_event list \<Rightarrow> server \<Rightarrow> server" where
  "channel_run evs s = fold channel_step evs s"

fun live :: "channel_event list \<Rightarrow> ws_message list" where
  "live [] = []"
| "live (Log i m # evs) = LOG i m # live evs"
| "live (Global m # evs) = GLOBAL_LOG m # live evs"
| "live (Status i st # evs) = STATUS i st # live evs"
| "live (_ # evs) = live evs"

section \<open>routes/instances.js: the process supervisor\<close>

text \<open>
  The answers of the routes. Each error stands for a status code and a message:
  \<open>InstanceNotFound\<close> 404 \<^verbatim>\<open>Instance not found\<close>, \<open>AlreadyRunning\<close> 400
  \<^verbatim>\<open>Already running\<close>, \<open>NotRunning\<close> 400 \<^verbatim>\<open>Not running\<close>, \<open>PathMissing p\<close> 500
  \<^verbatim>\<open>Instance path not found: p\<close>, \<open>PortConflict p n\<close> 400
  \<^verbatim>\<open>Port p is used by instance "n"\<close> (the create route words it in Chinese),
  \<open>PortInUseBySystem p\<close> 400 \<^verbatim>\<open>Port p is already in use by the system\<close>.
\<close>

datatype route_error =
    InstanceNotFound
  | AlreadyRunning
  | NotRunning
  | PathMissing string
  | PortConflict string string
  | PortInUseBySystem string
  | InvalidName
  | ToolMissing string
  | NameExists string
  | DirectoryExists

definition proxy_log_url :: "proxy \<Rightarrow> string" where
  "proxy_log_url px =
     (let proto = (if protocol px = [] then ''http'' else protocol px);
          p = (if pport px = [] then [] else '':'' @ pport px)
      in if auth px \<and> username px \<noteq> []
         then proto @ ''://'' @ username px @ '':******@'' @ host px @ p
         else proto @ ''://'' @ host px @ p)"

definition add_effect :: "effect \<Rightarrow> server \<Rightarrow> server" where
  "add_effect e s = s\<lparr>effects := effects s @ [e]\<rparr>"

text \<open>
  \<^verbatim>\<open>router.post('/start/:id')\<close>. The assembly of the child's environment (search path,
  proxy variables) and the console output are left out; the rest follows the route line
  by line. \<open>proxy_injection\<close> is the block that reports the proxy in use, \<open>launch\<close> the
  block that chooses the command by the type of the instance and spawns it; \<^verbatim>\<open>spawn\<close>
  returns the child \<open>next_handle\<close>.
\<close>

definition proxy_injection :: "string \<Rightarrow> bot_instance \<Rightarrow> server \<Rightarrow> server" where
  "proxy_injection i inst s =
     (case inst_proxy inst of
        None \<Rightarrow> s
      | Some px \<Rightarrow>
          if host px \<noteq> []
          then broadcastLog i (''[SYSTEM] Using Proxy: '' @ proxy_log_url px) s
          else s)"

definition launch :: "string \<Rightarrow> bot_instance \<Rightarrow> nat \<Rightarrow> server \<Rightarrow> server" where
  "launch i inst child s =
     (let instanceType = (case inst_type inst of
                            None \<Rightarrow> ''yunzai''
                          | Some t \<Rightarrow> if t = [] then ''yunzai'' else t)
      in if instanceType = ''gsuid''
         then add_effect (Spawn child ''uv'' [''run'', ''core''] (inst_path inst))
                (broadcastLog i ''Starting GSUID Core...'' s)
         else add_effect
                (Spawn child (execPath s) [path_join (inst_path inst) ''app.js''] (inst_path inst))
                (broadcastLog i (''Using Node: '' @ execPath s) s))"

definition start_route :: "string \<Rightarrow> server \<Rightarrow> (route_error + string) \<times> server" where
  "start_route i s =
     (case find (\<lambda>inst. inst_id inst = i) (instances s) of
        None \<Rightarrow> (Inl InstanceNotFound, s)
      | Some inst \<Rightarrow>
          if map_of (runningProcesses s) i \<noteq> None then (Inl AlreadyRunning, s)
          else
            (let s1 = proxy_injection i inst s
             in if \<not> existsSync s1 (inst_path inst)
                then (Inl (PathMissing (inst_path inst)),
                      broadcastLog i
                        (''--- ERROR: Instance path not found: '' @ inst_path inst @ '' ---'') s1)
                else
                  (let s2 = broadcastLog i (''--- Starting Instance '' @ inst_name inst @ '' ---'') s1;
                       s3 = broadcastLog i (''Working Directory: '' @ inst_path inst) s2;
                       child = next_handle s3;
                       s4 = launch i inst child s3;
                       s5 = s4\<lparr>runningProcesses := AList.update i child (runningProcesses s4),
                               next_handle := Suc child,
                               hasStarted := AList.update child False (hasStarted s4)\<rparr>;
                       s6 = broadcastStatus i ''starting'' s5
                   in (Inr ''Starting'', s6))))"

text \<open>
  The handlers that the start route attaches to the child \<open>child\<close> of instance \<open>i\<close>.
  \<^verbatim>\<open>stripAnsi\<close> is a regular-expression replacement; the handlers take it as the
  parameter \<open>strip\<close>, so what is proved of them holds whatever it computes.
  \<open>d\<close> is \<^verbatim>\<open>data.toString('utf8')\<close>.
\<close>

definition on_stdout_data ::
  "(string \<Rightarrow> string) \<Rightarrow> nat \<Rightarrow> string \<Rightarrow> string \<Rightarrow> server \<Rightarrow> server" where
  "on_stdout_data strip child i d s =
     (let text = js_trim d;
          s1 = (if text \<noteq> [] then broadcastLog i (strip text) s else s)
      in if map_of (hasStarted s1) child \<noteq> Some True
         then broadcastStatus i ''running''
                (s1\<lparr>hasStarted := AList.update child True (hasStarted s1)\<rparr>)
         else s1)"

definition on_stderr_data ::
  "(string \<Rightarrow> string) \<Rightarrow> nat \<Rightarrow> string \<Rightarrow> string \<Rightarrow> server \<Rightarrow> server" where
  "on_stderr_data strip child i d s =
     (let text = js_trim d
      in if text \<noteq> [] then broadcastLog i (strip text) s else s)"

definition on_error :: "string \<Rightarrow> string \<Rightarrow> server \<Rightarrow> server" where
  "on_error i message s =
     (let s1 = broadcastLog i (''--- Launch Error: '' @ message @ '' ---'') s;
          s2 = s1\<lparr>runningProcesses := AList.delete i (runningProcesses s1)\<rparr>
      in broadcastStatus i ''stopped'' s2)"

text \<open>
  The request that the close handler sends to the server itself to stop Redis. (index.js
  mounts the routes of dependencies.js under /api/dependencies, so this path is not the
  one of the stop route; what is proved below is about the request being sent.)
\<close>

definition redis_stop_request :: effect where
  "redis_stop_request = HttpRequest ''POST'' ''/api/deps/redis/stop''"

text \<open>\<^verbatim>\<open>child.on('close')\<close>; \<open>code\<close> is the exit code as the template prints it.\<close>

definition on_close :: "string \<Rightarrow> string \<Rightarrow> server \<Rightarrow> server" where
  "on_close i code s =
     (let s1 = broadcastLog i (''--- Instance Exited (Code: '' @ code @ '') ---'') s;
          s2 = s1\<lparr>runningProcesses := AList.delete i (runningProcesses s1)\<rparr>;
          s3 = broadcastStatus i ''stopped'' s2;
          runningCount = length (map fst (runningProcesses s3))
      in if runningCount = 0
         then (let redisLocked = redisKeepAlive s3
               in if \<not> redisLocked
                  then add_effect redis_stop_request
                         (broadcastGlobalLog
                            ''[SYSTEM] Last instance closed, stopping Redis...'' s3)
                  else broadcastGlobalLog ''[SYSTEM] Redis locked - keeping alive'' s3)
         else s3)"

text \<open>
  \<^verbatim>\<open>router.post('/stop/:id')\<close>. On Windows the route runs \<^verbatim>\<open>taskkill\<close> on the process
  tree; \<open>on_taskkill_error\<close> is the callback of that command when it fails.
\<close>

definition stop_route :: "string \<Rightarrow> server \<Rightarrow> (route_error + string) \<times> server" where
  "stop_route i s =
     (case map_of (runningProcesses s) i of
        None \<Rightarrow> (Inl NotRunning, s)
      | Some child \<Rightarrow>
          (let s1 = (if win32 s
                     then add_effect (Exec (''taskkill /PID '' @ show_nat child @ '' /T /F'')) s
                     else add_effect (Kill child ''SIGKILL'') s);
               s2 = s1\<lparr>runningProcesses := AList.delete i (runningProcesses s1)\<rparr>;
               s3 = broadcastStatus i ''stopped'' s2;
               s4 = broadcastLog i ''--- Instance Stopped ---'' s3
           in (Inr ''Stop signal sent'', s4)))"

definition on_taskkill_error :: "nat \<Rightarrow> server \<Rightarrow> server" where
  "on_taskkill_error child s = add_effect (Kill child ''SIGKILL'') s"

text \<open>What happens to the supervisor, one handler at a time.\<close>

datatype sup_event =
    Start string
  | Stop string
  | Stdout nat string string
  | Stderr nat string string
  | ChildError string string
  | Close string string
  | Connect

fun sup_step :: "(string \<Rightarrow> string) \<Rightarrow> sup_event \<Rightarrow> server \<Rightarrow> server" where
  "sup_step strip (Start i) s = snd (start_route i s)"
| "sup_step strip (Stop i) s = snd (stop_route i s)"
| "sup_step strip (Stdout child i d) s = on_stdout_data strip child i d s"
| "sup_step strip (Stderr child i d) s = on_stderr_data strip child i d s"
| "sup_step strip (ChildError i m) s = on_error i m s"
| "sup_step strip (Close i code) s = on_close i code s"
| "sup_step strip Connect s = connection s"

definition sup_run :: "(string \<Rightarrow> string) \<Rightarrow> sup_event list \<Rightarrow> server \<Rightarrow> server" where
  "sup_run strip evs s = fold (sup_step strip) evs s"

text \<open>
  What the output handlers send for one chunk: the log line, if the chunk has one. And
  what a run of chunks on standard error sends.
\<close>

definition chunk_log :: "(string \<Rightarrow> string) \<Rightarrow> string \<Rightarrow> string \<Rightarrow> ws_message list" where
  "chunk_log strip i d = (if js_trim d \<noteq> [] then [LOG i (strip (js_trim d))] else [])"

fun is_stderr :: "sup_event \<Rightarrow> bool" where
  "is_stderr (Stderr child i d) = True"
| "is_stderr _ = False"

fun stderr_messages :: "(string \<Rightarrow> string) \<Rightarrow> sup_event list \<Rightarrow> ws_message list" where
  "stderr_messages strip [] = []"
| "stderr_messages strip (Stderr child i d # evs) = chunk_log strip i d @ stderr_messages strip evs"
| "stderr_messages strip (_ # evs) = stderr_messages strip evs"

fun is_status :: "ws_message \<Rightarrow> bool" where
  "is_status (STATUS i st) = True"
| "is_status _ = False"

definition stop_requests :: "server \<Rightarrow> effect list" where
  "stop_requests s = filter (\<lambda>e. e = redis_stop_request) (effects s)"


text \<open>
  What a socket that was open in \<open>s\<close> has received since, in \<open>s'\<close>; the statuses
  \<open>running\<close> among messages; and the children whose flag \<^verbatim>\<open>hasStarted\<close> is set.
\<close>

definition sent_to :: "nat \<Rightarrow> server \<Rightarrow> server \<Rightarrow> ws_message list" where
  "sent_to n s s' = drop (length (inbox (clients s ! n))) (inbox (clients s' ! n))"

fun is_running :: "ws_message \<Rightarrow> bool" where
  "is_running (STATUS i st) = (st = ''running'')"
| "is_running _ = False"

definition started :: "server \<Rightarrow> nat list" where
  "started s = filter (\<lambda>c. map_of (hasStarted s) c = Some True) (map fst (hasStarted s))"

text \<open>
  The statuses that the first chunk on the standard output of each child announces, in
  the order of the chunks; \<open>seen\<close> are the children that have had their first chunk.
\<close>

fun first_chunks :: "nat list \<Rightarrow> sup_event list \<Rightarrow> ws_message list" where
  "first_chunks seen [] = []"
| "first_chunks seen (Stdout child i d # evs) =
     (if child \<in> set seen then first_chunks seen evs
      else STATUS i ''running'' # first_chunks (child # seen) evs)"
| "first_chunks seen (_ # evs) = first_chunks seen evs"

text \<open>
  \<^verbatim>\<open>spawn\<close> numbers the children in the order in which it makes them, and a child has
  output only once it has been spawned: the flags that exist belong to children below
  \<open>next_handle\<close>, and so does every chunk on standard output at the moment it arrives.
\<close>

definition handles_fresh :: "server \<Rightarrow> bool" where
  "handles_fresh s \<longleftrightarrow> list_all (\<lambda>c. c < next_handle s) (map fst (hasStarted s))"

fun spawned_chunks :: "(string \<Rightarrow> string) \<Rightarrow> sup_event list \<Rightarrow> server \<Rightarrow> bool" where
  "spawned_chunks strip [] s = True"
| "spawned_chunks strip (Stdout child i d # evs) s =
     (child < next_handle s \<and> spawned_chunks strip evs (on_stdout_data strip child i d s))"
| "spawned_chunks strip (e # evs) s = spawned_chunks strip evs (sup_step strip e s)"

fun stdout_of :: "nat \<Rightarrow> sup_event \<Rightarrow> bool" where
  "stdout_of c (Stdout child i d) = (child = c)"
| "stdout_of c _ = False"
section \<open>routes/instances.js: ports\<close>

text \<open>Truthiness and \<^verbatim>\<open>String(...)\<close> of a port field; \<open>None\<close> is \<^verbatim>\<open>undefined\<close>.\<close>

fun port_truthy :: "js_port option \<Rightarrow> bool" where
  "port_truthy None = False"
| "port_truthy (Some (PNum n)) = (n \<noteq> 0)"
| "port_truthy (Some (PStr t)) = (t \<noteq> [])"

fun js_String :: "js_port option \<Rightarrow> string" where
  "js_String None = ''undefined''"
| "js_String (Some (PNum n)) = show_nat n"
| "js_String (Some (PStr t)) = t"

text \<open>
  \<^verbatim>\<open>content.match(/port:\s*(\d+)/)\<close>: \<open>match_port_at\<close> tries the expression at the head of
  the text, \<open>match_port\<close> at each position from the left; the result is the captured
  group. \<^verbatim>\<open>\s*\<close> and \<^verbatim>\<open>\d+\<close> take all they can, and giving back cannot help, since no
  white space is a digit.
\<close>

definition match_port_at :: "string \<Rightarrow> string option" where
  "match_port_at t =
     (if take 5 t = ''port:''
      then (let ds = takeWhile js_digit (dropWhile js_whitespace (drop 5 t))
            in if ds = [] then None else Some ds)
      else None)"

fun match_port :: "string \<Rightarrow> string option" where
  "match_port [] = None"
| "match_port (c # cs) =
     (case match_port_at (c # cs) of Some ds \<Rightarrow> Some ds | None \<Rightarrow> match_port cs)"

definition server_yaml_path :: "bot_instance \<Rightarrow> string" where
  "server_yaml_path inst =
     path_join (path_join (path_join (inst_path inst) ''config'') ''config'') ''server.yaml''"

definition getInstancePort :: "server \<Rightarrow> bot_instance \<Rightarrow> string" where
  "getInstancePort s inst =
     (if port_truthy (inst_port inst) then js_String (inst_port inst)
      else (case map_of (files s) (server_yaml_path inst) of
              None \<Rightarrow> ''2536''
            | Some content \<Rightarrow>
                (case match_port content of Some m \<Rightarrow> m | None \<Rightarrow> ''2536'')))"

text \<open>
  The default that the import route gives a record without a port:
  \<^verbatim>\<open>instancePort || (instanceType === 'gsuid' ? '8080' : '2536')\<close>; and the two places
  where the create, import and config routes keep the port of a GSUID instance.
\<close>

definition import_default_port :: "string \<Rightarrow> string" where
  "import_default_port instanceType = (if instanceType = ''gsuid'' then ''8080'' else ''2536'')"

definition gsuid_config_paths :: "bot_instance \<Rightarrow> string list" where
  "gsuid_config_paths inst =
     [path_join (path_join (path_join (inst_path inst) ''gsuid_core'') ''data'') ''config.json'',
      path_join (path_join (inst_path inst) ''data'') ''config.json'']"

text \<open>No two registered instances (told apart by their ids) report the same port.\<close>

definition ports_unique :: "server \<Rightarrow> bool" where
  "ports_unique s \<longleftrightarrow>
     (\<forall>a \<in> set (instances s). \<forall>b \<in> set (instances s).
        inst_id a \<noteq> inst_id b \<longrightarrow> getInstancePort s a \<noteq> getInstancePort s b)"

text \<open>
  \<^verbatim>\<open>router.post('/create')\<close>. \<open>create_validate\<close> is the route up to its answer
  \<^verbatim>\<open>Creation started\<close>; \<open>create_register\<close> is the registration that follows the
  installation. The installation itself (clone, package installation, writing the port into
  the new instance's own configuration) is summarised by the directory it leaves and by
  whether it threw. \<open>tools\<close> are the answers of the pre-flight probes, \<open>now\<close> is
  \<^verbatim>\<open>Date.now().toString()\<close>.
\<close>

record create_request =
  req_name :: string
  req_port :: "js_port option"
  req_type :: "string option"

record tools =
  has_node :: bool
  has_uv :: bool
  has_git :: bool

record accepted =
  instanceName :: string
  instancePort :: js_port
  instanceType :: string
  installPath :: string

definition valid_name_char :: "char \<Rightarrow> bool" where
  "valid_name_char c \<longleftrightarrow>
     c \<in> set ''abcdefghijklmnopqrstuvwxyzABCDEFGHIJKLMNOPQRSTUVWXYZ0123456789_-''"

definition create_validate ::
  "tools \<Rightarrow> create_request \<Rightarrow> server \<Rightarrow> (route_error + accepted) \<times> server" where
  "create_validate probes rq s =
     (let name = (if req_name rq = [] then ''Yunzai-Bot'' else req_name rq);
          port = (case req_port rq of
                    None \<Rightarrow> PStr ''2536''
                  | Some p \<Rightarrow> if port_truthy (Some p) then p else PStr ''2536'');
          type = (case req_type rq of
                    None \<Rightarrow> ''yunzai''
                  | Some t \<Rightarrow> if t = [] then ''yunzai'' else t);
          path = path_join ''instances'' name
      in if \<not> (name \<noteq> [] \<and> list_all valid_name_char name)
         then (Inl InvalidName,
               broadcastGlobalLog (''[ERR] Invalid instance name: \"'' @ name @
                 ''\". Only English letters, numbers, hyphens and underscores allowed.'') s)
         else if type = ''yunzai'' \<and> \<not> has_node probes
         then (Inl (ToolMissing ''Node.js''), broadcastGlobalLog ''[ERR] Node.js not found.'' s)
         else if type = ''gsuid'' \<and> \<not> has_uv probes
         then (Inl (ToolMissing ''uv''),
               broadcastGlobalLog
                 ''[ERR] 'uv' command not found. Please install UV in Environment Management.'' s)
         else if \<not> has_git probes
         then (Inl (ToolMissing ''Git''), broadcastGlobalLog ''[ERR] Git not found.'' s)
         else if list_ex (\<lambda>inst. inst_name inst = name) (instances s)
         then (Inl (NameExists name), s)
         else (case find (\<lambda>inst. js_String (inst_port inst) = js_String (Some port))
                      (instances s) of
                 Some inst \<Rightarrow> (Inl (PortConflict (js_String (Some port)) (inst_name inst)), s)
               | None \<Rightarrow>
                   if existsSync s path then (Inl DirectoryExists, s)
                   else (Inr \<lparr> instanceName = name, instancePort = port,
                                instanceType = type, installPath = path \<rparr>, s)))"

definition create_register :: "string \<Rightarrow> accepted \<Rightarrow> server \<Rightarrow> server" where
  "create_register now acc s =
     (let newInstance = \<lparr> inst_id = now, inst_name = instanceName acc,
                           inst_path = installPath acc, inst_port = Some (instancePort acc),
                           inst_type = Some (instanceType acc), inst_proxy = None \<rparr>;
          s1 = s\<lparr>instances := instances s @ [newInstance]\<rparr>;
          s2 = broadcastGlobalLog ''[SYSTEM] Instance created successfully!'' s1
      in broadcastStatus now ''stopped'' s2)"

definition create_route ::
  "tools \<Rightarrow> string \<Rightarrow> string option \<Rightarrow> create_request \<Rightarrow> server
     \<Rightarrow> (route_error + string) \<times> server" where
  "create_route probes now install_error rq s =
     (case create_validate probes rq s of
        (Inl err, s') \<Rightarrow> (Inl err, s')
      | (Inr acc, s') \<Rightarrow>
          (Inr ''Creation started'',
           (case install_error of
              Some message \<Rightarrow> broadcastGlobalLog (''[ERR] Creation failed: '' @ message) s'
            | None \<Rightarrow> create_register now acc (s'\<lparr>dirs := installPath acc # dirs s'\<rparr>))))"

text \<open>
  \<^verbatim>\<open>router.post('/config/:id')\<close>, the port part (the master account goes to another file
  and is left out). \<open>port_check\<close> is the check that both branches of the route make:
  first the other records, then, while the instance is not running, the bind test.
  \<open>port_free\<close> is what \<^verbatim>\<open>checkPortAvailable\<close> answers, \<open>new_text\<close> is the text that the
  route computes from the old configuration file, which it can parse, and writes back.
  \<open>update_first\<close> is the assignment to the record that \<^verbatim>\<open>find\<close> returned.
\<close>

fun update_first :: "('a \<Rightarrow> bool) \<Rightarrow> ('a \<Rightarrow> 'a) \<Rightarrow> 'a list \<Rightarrow> 'a list" where
  "update_first P f [] = []"
| "update_first P f (x # xs) = (if P x then f x # xs else x # update_first P f xs)"

definition port_check ::
  "(string \<Rightarrow> bool) \<Rightarrow> string \<Rightarrow> string \<Rightarrow> server \<Rightarrow> route_error option" where
  "port_check port_free i newPort s =
     (case find (\<lambda>j. inst_id j \<noteq> i \<and> getInstancePort s j = newPort) (instances s) of
        Some conflictInst \<Rightarrow> Some (PortConflict newPort (inst_name conflictInst))
      | None \<Rightarrow>
          if map_of (runningProcesses s) i = None
          then (if \<not> port_free newPort then Some (PortInUseBySystem newPort) else None)
          else None)"

definition config_route ::
  "(string \<Rightarrow> bool) \<Rightarrow> string \<Rightarrow> string \<Rightarrow> js_port option \<Rightarrow> server
     \<Rightarrow> (route_error + unit) \<times> server" where
  "config_route port_free new_text i port s =
     (case find (\<lambda>inst. inst_id inst = i) (instances s) of
        None \<Rightarrow> (Inl InstanceNotFound, s)
      | Some inst \<Rightarrow>
          (let configDir = path_join (path_join (inst_path inst) ''config'') ''config''
           in if inst_type inst = Some ''gsuid''
              then (if port_truthy port
                    then (case port_check port_free i (js_String port) s of
                            Some err \<Rightarrow> (Inl err, s)
                          | None \<Rightarrow>
                              (let target =
                                     (if existsSync s (hd (gsuid_config_paths inst))
                                      then hd (gsuid_config_paths inst)
                                      else hd (tl (gsuid_config_paths inst)))
                               in (Inr (),
                                   s\<lparr>files := AList.update target new_text (files s),
                                     instances := update_first (\<lambda>j. inst_id j = i)
                                                    (\<lambda>j. j\<lparr>inst_port := port\<rparr>) (instances s)\<rparr>)))
                    else (Inr (), s))
              else (let s0 = (if \<not> existsSync s configDir
                              then s\<lparr>dirs := configDir # dirs s\<rparr> else s)
                    in if port_truthy port
                       then (case port_check port_free i (js_String port) s0 of
                               Some err \<Rightarrow> (Inl err, s0)
                             | None \<Rightarrow>
                                 (Inr (),
                                  s0\<lparr>files := AList.update (server_yaml_path inst) new_text
                                                 (files s0),
                                     instances := update_first (\<lambda>j. inst_id j = i)
                                                    (\<lambda>j. j\<lparr>inst_port := port\<rparr>) (instances s0)\<rparr>))
                       else (Inr (), s0))))"

section \<open>routes/dependencies.js: the Redis process\<close>

datatype redis_error =
    RedisAlreadyRunning
  | RedisNotFound
  | RedisStartFailed
  | RedisThrew
  | RedisNotRunning

definition redisDataDir :: string where
  "redisDataDir = ''data/redis''"

definition localRedis :: string where
  "localRedis = ''bin/redis/redis-server.exe''"

definition taskkill_redis :: effect where
  "taskkill_redis = Exec ''taskkill /F /IM redis-server.exe''"

text \<open>
  \<^verbatim>\<open>router.post('/redis/start')\<close> is an \<^verbatim>\<open>async\<close> function that awaits twice, so a request
  is three turns of the server, and other callbacks run between them.
  \<^item> \<open>redis_start_begin\<close>, up to \<^verbatim>\<open>await\<close> of the \<^verbatim>\<open>taskkill\<close> command: the data directory
    is made if it is missing, the handle is tested, the command is started. The result
    \<open>Some err\<close> is the answer of a request that ends here.
  \<^item> \<open>redis_start_spawn\<close>, from the end of \<^verbatim>\<open>taskkill\<close> up to \<^verbatim>\<open>await\<close> of the 500 ms
    timer: the executable is looked up, first the configured path, then the bundled one;
    the child is spawned, the handle assigned and the handlers attached. \<open>throws\<close> says
    whether \<^verbatim>\<open>spawn\<close> throws. The result \<open>Inr child\<close> is the child of a request that goes on.
  \<^item> \<open>redis_start_finish\<close>, after the timer, for the request that spawned \<open>child\<close>.
  \<open>redis_on_close\<close> is the close handler of the child \<open>child\<close>; \<open>code\<close> is the exit code
  as the template prints it. The handlers of the child's output only write to the global
  log and are left out.
\<close>

definition ensure_redis_dir :: "server \<Rightarrow> server" where
  "ensure_redis_dir s =
     (if \<not> existsSync s redisDataDir
      then add_effect (Mkdir redisDataDir) (s\<lparr>dirs := redisDataDir # dirs s\<rparr>)
      else s)"

definition find_redis_path :: "server \<Rightarrow> string option" where
  "find_redis_path s =
     (case redisPath s of
        None \<Rightarrow> if existsSync s localRedis then Some localRedis else None
      | Some p \<Rightarrow>
          if p \<noteq> [] \<and> existsSync s p then Some p
          else if existsSync s localRedis then Some localRedis else None)"

definition redis_start_begin :: "server \<Rightarrow> redis_error option \<times> server" where
  "redis_start_begin s =
     (let s0 = ensure_redis_dir s
      in if redisProcess s0 \<noteq> None then (Some RedisAlreadyRunning, s0)
         else (None, add_effect taskkill_redis s0))"

definition redis_start_spawn :: "bool \<Rightarrow> server \<Rightarrow> (redis_error + nat) \<times> server" where
  "redis_start_spawn throws s =
     (case find_redis_path s of
        None \<Rightarrow> (Inl RedisNotFound, s)
      | Some p \<Rightarrow>
          if throws then (Inl RedisThrew, s\<lparr>redisProcess := None\<rparr>)
          else
            (let child = next_handle s;
                 s1 = add_effect (Spawn child p [''--dir'', redisDataDir] [])
                        (s\<lparr>redisProcess := Some child, next_handle := Suc child,
                           startFailed := AList.update child False (startFailed s)\<rparr>)
             in (Inr child, s1)))"

definition redis_on_close :: "nat \<Rightarrow> string \<Rightarrow> server \<Rightarrow> server" where
  "redis_on_close child code s =
     (let s1 = (if code \<noteq> ''0''
                then s\<lparr>startFailed := AList.update child True (startFailed s)\<rparr> else s)
      in broadcastGlobalLog (''[REDIS] Process exited with code '' @ code)
           (s1\<lparr>redisProcess := None\<rparr>))"

definition redis_start_finish :: "nat \<Rightarrow> server \<Rightarrow> (redis_error + unit) \<times> server" where
  "redis_start_finish child s =
     (if map_of (startFailed s) child = Some True \<or> redisProcess s = None
      then (Inl RedisStartFailed, s)
      else (Inr (), broadcastGlobalLog ''[SYSTEM] Redis started'' s))"

text \<open>
  \<^verbatim>\<open>router.post('/redis/stop')\<close> awaits nothing and is one turn; \<open>throws\<close> says whether
  \<^verbatim>\<open>kill\<close> throws.
\<close>

definition redis_stop :: "bool \<Rightarrow> server \<Rightarrow> (redis_error + unit) \<times> server" where
  "redis_stop throws s =
     (case redisProcess s of
        None \<Rightarrow> (Inl RedisNotRunning, s)
      | Some child \<Rightarrow>
          if throws then (Inl RedisThrew, s)
          else (Inr (),
                broadcastGlobalLog ''[SYSTEM] Redis stopped''
                  ((add_effect (Kill child ''SIGTERM'') s)\<lparr>redisProcess := None\<rparr>)))"

text \<open>What happens to the Redis routes, one turn at a time.\<close>

datatype redis_event =
    StartBegins
  | StartSpawns bool
  | StartFinishes nat
  | RedisCloses nat string
  | StopRequest bool

fun redis_step :: "redis_event \<Rightarrow> server \<Rightarrow> server" where
  "redis_step StartBegins s = snd (redis_start_begin s)"
| "redis_step (StartSpawns throws) s = snd (redis_start_spawn throws s)"
| "redis_step (StartFinishes child) s = snd (redis_start_finish child s)"
| "redis_step (RedisCloses child code) s = redis_on_close child code s"
| "redis_step (StopRequest throws) s = snd (redis_stop throws s)"

definition redis_run :: "redis_event list \<Rightarrow> server \<Rightarrow> server" where
  "redis_run evs s = fold redis_step evs s"

text \<open>The Redis children that have been spawned, oldest first.\<close>

fun redis_children :: "effect list \<Rightarrow> nat list" where
  "redis_children [] = []"
| "redis_children (Spawn child p args cwd # es) =
     (if args = [''--dir'', redisDataDir] then child # redis_children es else redis_children es)"
| "redis_children (_ # es) = redis_children es"

text \<open>
  Two start requests that overlap: the second begins while the first waits for
  \<^verbatim>\<open>taskkill\<close>, then each goes on to its second turn.
\<close>

definition overlapping_starts :: "redis_event list" where
  "overlapping_starts = [StartBegins, StartBegins, StartSpawns False, StartSpawns False]"

section \<open>Example data\<close>

text \<open>
  Two instances as the create route registers them, a record of an older data.json that
  has no port field, and servers that hold them.
\<close>

definition alpha :: bot_instance where
  "alpha = \<lparr> inst_id = ''1'', inst_name = ''alpha'', inst_path = ''instances/alpha'',
             inst_port = Some (PStr ''3000''), inst_type = Some ''yunzai'', inst_proxy = None \<rparr>"

definition beta :: bot_instance where
  "beta = \<lparr> inst_id = ''2'', inst_name = ''beta'', inst_path = ''instances/beta'',
            inst_port = Some (PStr ''3001''), inst_type = Some ''gsuid'', inst_proxy = None \<rparr>"

definition legacy :: bot_instance where
  "legacy = \<lparr> inst_id = ''3'', inst_name = ''legacy'', inst_path = ''instances/legacy'',
              inst_port = None, inst_type = None, inst_proxy = None \<rparr>"

definition registered :: server where
  "registered = init_server\<lparr>instances := [alpha, beta],
                             dirs := [''instances/alpha'', ''instances/beta'']\<rparr>"

definition one_running :: server where
  "one_running = snd (start_route ''1'' registered)"

definition two_running :: server where
  "two_running = snd (start_route ''2'' one_running)"

definition logged :: server where
  "logged = channel_run [Log ''1'' ''a'', Global ''g'', Log ''1'' ''b''] init_server"

text \<open>
  A GSUID instance without a port field whose own configuration file, as the config route
  writes it for this type, names port 8765.
\<close>

definition gsuid_legacy :: bot_instance where
  "gsuid_legacy = \<lparr> inst_id = ''4'', inst_name = ''core'', inst_path = ''instances/core'',
                    inst_port = None, inst_type = Some ''gsuid'', inst_proxy = None \<rparr>"

definition gsuid_disk :: server where
  "gsuid_disk = init_server\<lparr>instances := [gsuid_legacy],
                  files := [(''instances/core/data/config.json'', ''{\"PORT\": 8765}'')],
                  dirs := [''instances/core'']\<rparr>"

definition yaml_text :: string where
  "yaml_text = ''host: 0.0.0.0'' @ [CHR 0x0A] @ ''port: 2540''"

definition yaml_disk :: server where
  "yaml_disk = init_server\<lparr>instances := [legacy],
                 files := [(''instances/legacy/config/config/server.yaml'', yaml_text)],
                 dirs := [''instances/legacy'']\<rparr>"

text \<open>
  A server with the bundled Redis on its disk; the same after one start request has run
  its three turns; and after two start requests of which the second began while the first
  was waiting for \<^verbatim>\<open>taskkill\<close>.
\<close>

definition redis_installed :: server where
  "redis_installed = init_server\<lparr>files := [(''bin/redis/redis-server.exe'', [])]\<rparr>"

definition redis_running :: server where
  "redis_running = redis_run [StartBegins, StartSpawns False, StartFinishes 0] redis_installed"

definition redis_overlapped :: server where
  "redis_overlapped =
     redis_run overlapping_starts redis_installed"

text \<open>A request to create an instance on port 2540, with every tool at hand.\<close>

definition all_tools :: tools where
  "all_tools = \<lparr> has_node = True, has_uv = True, has_git = True \<rparr>"

definition create_2540 :: create_request where
  "create_2540 = \<lparr> req_name = ''gamma'', req_port = Some (PStr ''2540''), req_type = None \<rparr>"

text \<open>Two requests for the same free port under different names, and what the
  create route accepts of them.\<close>

definition create_delta :: create_request where
  "create_delta = \<lparr> req_name = ''delta'', req_port = Some (PStr ''4000''), req_type = None \<rparr>"

definition create_epsilon :: create_request where
  "create_epsilon = \<lparr> req_name = ''epsilon'', req_port = Some (PStr ''4000''), req_type = None \<rparr>"

definition accepted_delta :: accepted where
  "accepted_delta = \<lparr> instanceName = ''delta'', instancePort = PStr ''4000'',
                      instanceType = ''yunzai'', installPath = ''instances/delta'' \<rparr>"

definition accepted_epsilon :: accepted where
  "accepted_epsilon = \<lparr> instanceName = ''epsilon'', instancePort = PStr ''4000'',
                        instanceType = ''yunzai'', installPath = ''instances/epsilon'' \<rparr>"

text \<open>
  A socket that watches the server while \<open>alpha\<close> is starting, and a restart of \<open>alpha\<close>
  seen by it: the first child writes a line on standard error and is stopped; the second
  child writes a blank chunk and then a line on standard output.
\<close>

definition watched :: server where
  "watched = connection one_running"

definition restart_chunks :: "sup_event list" where
  "restart_chunks =
     [Stderr 0 ''1'' ''ready'', Stop ''1'', Start ''1'',
      Stdout 1 ''1'' ''  '', Stdout 1 ''1'' ''up'']"

section \<open>Log buffers: capacity and eviction\<close>

lemma broadcast_keeps_buffers [simp]:
  "logHistory (broadcast m s) = logHistory s"
  "globalLogHistory (broadcast m s) = globalLogHistory s"
  "terminalLogs (broadcast m s) = terminalLogs s"
  by (simp_all add: broadcast_def)

lemma instance_buffer_broadcastLog:
  "instance_buffer (broadcastLog i m s) j =
     (if j = i
      then (if length (instance_buffer s i) \<ge> 1000
            then tl (instance_buffer s i @ [m]) else instance_buffer s i @ [m])
      else instance_buffer s j)"
  by (simp add: instance_buffer_def broadcastLog_def wsBroadcastLog_def Let_def update_conv')

lemma terminal_buffer_broadcastTerminalOutput:
  "terminal_buffer (broadcastTerminalOutput i m s) j =
     (if j = i
      then (if length (terminal_buffer s i) \<ge> 500
            then tl (terminal_buffer s i @ [m]) else terminal_buffer s i @ [m])
      else terminal_buffer s j)"
  by (simp add: terminal_buffer_def broadcastTerminalOutput_def Let_def update_conv')

lemma globalLogHistory_broadcastGlobalLog:
  "globalLogHistory (broadcastGlobalLog m s) =
     (if length (globalLogHistory s) \<ge> 500
      then tl (globalLogHistory s @ [m]) else globalLogHistory s @ [m])"
  by (simp add: broadcastGlobalLog_def MAX_HISTORY_def Let_def)

lemma other_buffers_broadcastLog [simp]:
  "globalLogHistory (broadcastLog i m s) = globalLogHistory s"
  "terminal_buffer (broadcastLog i m s) j = terminal_buffer s j"
  by (simp_all add: broadcastLog_def wsBroadcastLog_def terminal_buffer_def Let_def)

lemma other_buffers_broadcastGlobalLog [simp]:
  "instance_buffer (broadcastGlobalLog m s) j = instance_buffer s j"
  "terminal_buffer (broadcastGlobalLog m s) j = terminal_buffer s j"
  by (simp_all add: broadcastGlobalLog_def instance_buffer_def terminal_buffer_def Let_def)

lemma other_buffers_broadcastTerminalOutput [simp]:
  "instance_buffer (broadcastTerminalOutput i m s) j = instance_buffer s j"
  "globalLogHistory (broadcastTerminalOutput i m s) = globalLogHistory s"
  by (simp_all add: broadcastTerminalOutput_def instance_buffer_def Let_def)

lemma buffers_bounded_init: "buffers_bounded init_server"
  by (simp add: buffers_bounded_def init_server_def instance_buffer_def terminal_buffer_def)

lemma buffers_bounded_step:
  assumes "buffers_bounded s"
  shows "buffers_bounded (log_step e s)"
proof (cases e)
  case (AppendLog i m)
  with assms show ?thesis
    by (auto simp: buffers_bounded_def instance_buffer_broadcastLog)
next
  case (AppendGlobal m)
  with assms show ?thesis
    by (auto simp: buffers_bounded_def globalLogHistory_broadcastGlobalLog)
next
  case (AppendTerminal i m)
  with assms show ?thesis
    by (auto simp: buffers_bounded_def terminal_buffer_broadcastTerminalOutput)
qed

lemma buffers_bounded_run:
  "buffers_bounded s \<Longrightarrow> buffers_bounded (log_run evs s)"
  unfolding log_run_def
  by (induction evs arbitrary: s) (simp_all add: buffers_bounded_step)

lemma tl_snoc_full: "length xs = Suc n \<Longrightarrow> tl (xs @ [m]) = tl xs @ [m]"
  by (cases xs) simp_all

lemma push_shift_window:
  assumes "length old \<le> c" and "0 < c"
  shows "(if length old \<ge> c then tl (old @ [m]) else old @ [m])
           = drop (length (old @ [m]) - c) (old @ [m])"
proof (cases "length old = c")
  case True
  with assms(2) obtain x xs where "old = x # xs" by (cases old) auto
  with True show ?thesis by simp
next
  case False
  with assms(1) have "length old < c" by simp
  then show ?thesis by simp
qed

lemma window_append:
  assumes "length X \<le> Suc c"
  shows "drop (length (drop (length X - c) X @ ls) - c) (drop (length X - c) X @ ls)
           = drop (length (X @ ls) - c) (X @ ls)"
proof (cases "length X \<le> c")
  case True
  then show ?thesis by simp
next
  case False
  with assms have len: "length X = Suc c" by simp
  then obtain x xs where X: "X = x # xs" and xs: "length xs = c" by (cases X) auto
  show ?thesis by (simp add: X xs)
qed

text \<open>
  After a run, the buffer of an instance is the last 1000 of the lines it held before
  followed by the lines the run appended to it.
\<close>

lemma instance_buffer_run:
  "length (instance_buffer s i) \<le> 1000 \<Longrightarrow>
   instance_buffer (log_run evs s) i
     = drop (length (instance_buffer s i @ lines_of i evs) - 1000)
         (instance_buffer s i @ lines_of i evs)"
proof (induction evs arbitrary: s)
  case Nil
  then show ?case by (simp add: log_run_def)
next
  case (Cons e evs)
  let ?old = "instance_buffer s i"
  have run: "log_run (e # evs) s = log_run evs (log_step e s)"
    by (simp add: log_run_def)
  show ?case
  proof (cases "\<exists>m. e = AppendLog i m")
    case True
    then obtain m where e: "e = AppendLog i m" by blast
    let ?X = "?old @ [m]"
    let ?s1 = "broadcastLog i m s"
    have b1: "instance_buffer ?s1 i = drop (length ?X - 1000) ?X"
      using Cons.prems push_shift_window[of ?old 1000 m]
      by (simp add: instance_buffer_broadcastLog)
    have len1: "length (instance_buffer ?s1 i) \<le> 1000"
      using Cons.prems by (simp add: b1)
    have lenX: "length ?X \<le> Suc 1000"
      using Cons.prems by simp
    have "instance_buffer (log_run (e # evs) s) i = instance_buffer (log_run evs ?s1) i"
      using run by (simp add: e)
    also have "\<dots> = drop (length (instance_buffer ?s1 i @ lines_of i evs) - 1000)
                       (instance_buffer ?s1 i @ lines_of i evs)"
      by (rule Cons.IH[OF len1])
    also have "\<dots> = drop (length (?X @ lines_of i evs) - 1000) (?X @ lines_of i evs)"
      unfolding b1 by (rule window_append[OF lenX])
    finally show ?thesis by (simp add: e)
  next
    case False
    then have same: "instance_buffer (log_step e s) i = ?old"
      and lines: "lines_of i (e # evs) = lines_of i evs"
      by (cases e; simp add: instance_buffer_broadcastLog)+
    have "instance_buffer (log_run (e # evs) s) i
            = instance_buffer (log_run evs (log_step e s)) i"
      by (simp add: run)
    also have "\<dots> = drop (length (?old @ lines_of i evs) - 1000) (?old @ lines_of i evs)"
      using Cons.IH[of "log_step e s"] Cons.prems by (simp add: same)
    finally show ?thesis by (simp add: lines)
  qed
qed

text \<open>
  C4. After any sequence of appends no buffer is longer than its capacity: 1000 lines for
  the buffer of an instance, 500 for the global buffer and for a terminal buffer. An append
  evicts exactly the oldest line, and does so exactly when the buffer already holds its
  capacity, that is when the line appended is the one after the capacity; so the buffer of
  an instance always holds the last 1000 lines appended to it.
\<close>

theorem log_buffers_capacity:
  assumes "buffers_bounded s"
  shows "buffers_bounded (log_run evs s) \<and>
     (let s' = log_run evs s in
        instance_buffer (broadcastLog i m s') i =
          (if length (instance_buffer s' i) = 1000
           then tl (instance_buffer s' i) @ [m] else instance_buffer s' i @ [m]) \<and>
        globalLogHistory (broadcastGlobalLog m s') =
          (if length (globalLogHistory s') = 500
           then tl (globalLogHistory s') @ [m] else globalLogHistory s' @ [m]) \<and>
        terminal_buffer (broadcastTerminalOutput i m s') i =
          (if length (terminal_buffer s' i) = 500
           then tl (terminal_buffer s' i) @ [m] else terminal_buffer s' i @ [m]) \<and>
        instance_buffer s' i =
          drop (length (instance_buffer s i @ lines_of i evs) - 1000)
            (instance_buffer s i @ lines_of i evs))"
proof -
  let ?s = "log_run evs s"
  have b: "buffers_bounded ?s"
    using assms by (rule buffers_bounded_run)
  then have l1: "length (instance_buffer ?s i) \<le> 1000"
    and l2: "length (globalLogHistory ?s) \<le> 500"
    and l3: "length (terminal_buffer ?s i) \<le> 500"
    by (simp_all add: buffers_bounded_def)
  have c1: "instance_buffer (broadcastLog i m ?s) i =
          (if length (instance_buffer ?s i) = 1000
           then tl (instance_buffer ?s i) @ [m] else instance_buffer ?s i @ [m])"
    using l1 by (simp add: instance_buffer_broadcastLog tl_snoc_full[of _ 999])
  have c2: "globalLogHistory (broadcastGlobalLog m ?s) =
          (if length (globalLogHistory ?s) = 500
           then tl (globalLogHistory ?s) @ [m] else globalLogHistory ?s @ [m])"
    using l2 by (simp add: globalLogHistory_broadcastGlobalLog tl_snoc_full[of _ 499])
  have c3: "terminal_buffer (broadcastTerminalOutput i m ?s) i =
          (if length (terminal_buffer ?s i) = 500
           then tl (terminal_buffer ?s i) @ [m] else terminal_buffer ?s i @ [m])"
    using l3 by (simp add: terminal_buffer_broadcastTerminalOutput tl_snoc_full[of _ 499])
  have "length (instance_buffer s i) \<le> 1000"
    using assms by (simp add: buffers_bounded_def)
  then have c4: "instance_buffer ?s i =
          drop (length (instance_buffer s i @ lines_of i evs) - 1000)
            (instance_buffer s i @ lines_of i evs)"
    by (rule instance_buffer_run)
  show ?thesis
    unfolding Let_def using b c1 c2 c3 c4 by blast
qed

theorem log_buffers_capacity_witness:
  "buffers_bounded init_server \<and>
   buffers_bounded
     (log_run [AppendLog ''1'' ''a'', AppendGlobal ''g'', AppendTerminal ''1'' ''t'']
        init_server) \<and>
   instance_buffer
     (broadcastLog ''1'' ''b''
        (log_run [AppendLog ''1'' ''a'', AppendGlobal ''g'', AppendTerminal ''1'' ''t'']
           init_server)) ''1'' = [''a'', ''b'']"
proof -
  have h: "buffers_bounded init_server" by (rule buffers_bounded_init)
  have v: "instance_buffer
             (log_run [AppendLog ''1'' ''a'', AppendGlobal ''g'', AppendTerminal ''1'' ''t'']
                init_server) ''1'' = [''a'']"
    by code_simp
  show ?thesis
    using h v
      log_buffers_capacity[OF h,
        of "[AppendLog ''1'' ''a'', AppendGlobal ''g'', AppendTerminal ''1'' ''t'']"
           "''1''" "''b''"]
    by (simp add: Let_def)
qed






section \<open>What the broadcasting functions leave alone\<close>

lemmas sup_defs = broadcastLog_def broadcastStatus_def broadcastGlobalLog_def wsBroadcastLog_def
  broadcast_def add_effect_def Let_def

lemma send_if_open_deliver: "(if readyOpen c then ws_send m c else c) = deliver [m] c"
  by (simp add: ws_send_def deliver_def)

lemma deliver_deliver [simp]: "deliver ms (deliver ns c) = deliver (ns @ ms) c"
  by (simp add: deliver_def)

lemma deliver_Nil [simp]: "deliver [] c = c"
  by (simp add: deliver_def)

lemma map_deliver_Nil [simp]: "map (deliver []) cs = cs"
  by (induction cs) simp_all

lemma deliver_comp [simp]: "deliver ms \<circ> deliver ns = deliver (ns @ ms)"
  by (rule ext) simp

lemma clients_broadcast [simp]: "clients (broadcast m s) = map (deliver [m]) (clients s)"
  by (simp add: broadcast_def send_if_open_deliver)

lemma clients_broadcastStatus [simp]:
  "clients (broadcastStatus i st s) = map (deliver [STATUS i st]) (clients s)"
  by (simp add: broadcastStatus_def)

lemma clients_broadcastLog [simp]:
  "clients (broadcastLog i m s) = map (deliver [LOG i m]) (clients s)"
  by (simp add: broadcastLog_def wsBroadcastLog_def Let_def)

lemma clients_broadcastGlobalLog [simp]:
  "clients (broadcastGlobalLog m s) = map (deliver [GLOBAL_LOG m]) (clients s)"
  by (simp add: broadcastGlobalLog_def Let_def)

lemma clients_add_effect [simp]: "clients (add_effect e s) = clients s"
  by (simp add: add_effect_def)

lemma broadcastLog_frame [simp]:
  "instances (broadcastLog i m s) = instances s"
  "redisKeepAlive (broadcastLog i m s) = redisKeepAlive s"
  "redisPath (broadcastLog i m s) = redisPath s"
  "files (broadcastLog i m s) = files s"
  "dirs (broadcastLog i m s) = dirs s"
  "runningProcesses (broadcastLog i m s) = runningProcesses s"
  "terminalProcesses (broadcastLog i m s) = terminalProcesses s"
  "terminalLogs (broadcastLog i m s) = terminalLogs s"
  "redisProcess (broadcastLog i m s) = redisProcess s"
  "effects (broadcastLog i m s) = effects s"
  "next_handle (broadcastLog i m s) = next_handle s"
  "hasStarted (broadcastLog i m s) = hasStarted s"
  "win32 (broadcastLog i m s) = win32 s"
  "execPath (broadcastLog i m s) = execPath s"
  by (simp_all add: sup_defs)

lemma broadcastStatus_frame [simp]:
  "instances (broadcastStatus i st s) = instances s"
  "redisKeepAlive (broadcastStatus i st s) = redisKeepAlive s"
  "redisPath (broadcastStatus i st s) = redisPath s"
  "files (broadcastStatus i st s) = files s"
  "dirs (broadcastStatus i st s) = dirs s"
  "runningProcesses (broadcastStatus i st s) = runningProcesses s"
  "terminalProcesses (broadcastStatus i st s) = terminalProcesses s"
  "terminalLogs (broadcastStatus i st s) = terminalLogs s"
  "logHistory (broadcastStatus i st s) = logHistory s"
  "globalLogHistory (broadcastStatus i st s) = globalLogHistory s"
  "redisProcess (broadcastStatus i st s) = redisProcess s"
  "effects (broadcastStatus i st s) = effects s"
  "next_handle (broadcastStatus i st s) = next_handle s"
  "hasStarted (broadcastStatus i st s) = hasStarted s"
  "win32 (broadcastStatus i st s) = win32 s"
  "execPath (broadcastStatus i st s) = execPath s"
  by (simp_all add: sup_defs)

lemma broadcastGlobalLog_frame [simp]:
  "instances (broadcastGlobalLog m s) = instances s"
  "redisKeepAlive (broadcastGlobalLog m s) = redisKeepAlive s"
  "redisPath (broadcastGlobalLog m s) = redisPath s"
  "files (broadcastGlobalLog m s) = files s"
  "dirs (broadcastGlobalLog m s) = dirs s"
  "runningProcesses (broadcastGlobalLog m s) = runningProcesses s"
  "terminalProcesses (broadcastGlobalLog m s) = terminalProcesses s"
  "terminalLogs (broadcastGlobalLog m s) = terminalLogs s"
  "logHistory (broadcastGlobalLog m s) = logHistory s"
  "redisProcess (broadcastGlobalLog m s) = redisProcess s"
  "effects (broadcastGlobalLog m s) = effects s"
  "next_handle (broadcastGlobalLog m s) = next_handle s"
  "hasStarted (broadcastGlobalLog m s) = hasStarted s"
  "startFailed (broadcastGlobalLog m s) = startFailed s"
  "win32 (broadcastGlobalLog m s) = win32 s"
  "execPath (broadcastGlobalLog m s) = execPath s"
  by (simp_all add: sup_defs)

lemma add_effect_frame [simp]:
  "instances (add_effect e s) = instances s"
  "redisKeepAlive (add_effect e s) = redisKeepAlive s"
  "redisPath (add_effect e s) = redisPath s"
  "files (add_effect e s) = files s"
  "dirs (add_effect e s) = dirs s"
  "runningProcesses (add_effect e s) = runningProcesses s"
  "terminalProcesses (add_effect e s) = terminalProcesses s"
  "terminalLogs (add_effect e s) = terminalLogs s"
  "logHistory (add_effect e s) = logHistory s"
  "globalLogHistory (add_effect e s) = globalLogHistory s"
  "redisProcess (add_effect e s) = redisProcess s"
  "effects (add_effect e s) = effects s @ [e]"
  "next_handle (add_effect e s) = next_handle s"
  "hasStarted (add_effect e s) = hasStarted s"
  "startFailed (add_effect e s) = startFailed s"
  "win32 (add_effect e s) = win32 s"
  "execPath (add_effect e s) = execPath s"
  by (simp_all add: add_effect_def)

lemma instance_buffer_frame [simp]:
  "instance_buffer (broadcastStatus i st s) j = instance_buffer s j"
  "instance_buffer (add_effect e s) j = instance_buffer s j"
  "instance_buffer (s\<lparr>runningProcesses := rp\<rparr>) j = instance_buffer s j"
  "instance_buffer (s\<lparr>hasStarted := hs\<rparr>) j = instance_buffer s j"
  "instance_buffer (s\<lparr>next_handle := n\<rparr>) j = instance_buffer s j"
  "instance_buffer (s\<lparr>redisProcess := r\<rparr>) j = instance_buffer s j"
  by (simp_all add: instance_buffer_def)

lemma existsSync_frame [simp]:
  "existsSync (broadcastLog i m s) p = existsSync s p"
  "existsSync (broadcastStatus i st s) p = existsSync s p"
  "existsSync (broadcastGlobalLog m s) p = existsSync s p"
  "existsSync (add_effect e s) p = existsSync s p"
  by (simp_all add: existsSync_def)

lemma last_instance_buffer_broadcastLog:
  "last (instance_buffer (broadcastLog i m s) i) = m"
  by (cases "instance_buffer s i") (simp_all add: instance_buffer_broadcastLog)


section \<open>The start and stop routes\<close>


lemma start_route_running:
  assumes "map_of (runningProcesses s) i = Some child"
  shows "start_route i s =
           (case find (\<lambda>inst. inst_id inst = i) (instances s) of
              None \<Rightarrow> Inl InstanceNotFound | Some inst \<Rightarrow> Inl AlreadyRunning, s)"
proof (cases "find (\<lambda>inst. inst_id inst = i) (instances s)")
  case None
  then show ?thesis unfolding start_route_def by simp
next
  case (Some inst)
  then show ?thesis unfolding start_route_def using assms by simp
qed

lemma proxy_injection_frame [simp]:
  "effects (proxy_injection i inst s) = effects s"
  "runningProcesses (proxy_injection i inst s) = runningProcesses s"
  "next_handle (proxy_injection i inst s) = next_handle s"
  "instances (proxy_injection i inst s) = instances s"
  "hasStarted (proxy_injection i inst s) = hasStarted s"
  "redisProcess (proxy_injection i inst s) = redisProcess s"
  "execPath (proxy_injection i inst s) = execPath s"
  "existsSync (proxy_injection i inst s) p = existsSync s p"
  by (cases "inst_proxy inst"; simp add: proxy_injection_def)+

lemma launch_frame [simp]:
  "runningProcesses (launch i inst child s) = runningProcesses s"
  "next_handle (launch i inst child s) = next_handle s"
  "instances (launch i inst child s) = instances s"
  "hasStarted (launch i inst child s) = hasStarted s"
  "redisProcess (launch i inst child s) = redisProcess s"
  by (simp_all add: launch_def Let_def)

lemma effects_launch:
  "\<exists>cmd args. effects (launch i inst child s) = effects s @ [Spawn child cmd args (inst_path inst)]"
  by (simp add: launch_def Let_def)

lemma start_route_path_missing:
  assumes "find (\<lambda>inst. inst_id inst = i) (instances s) = Some inst"
    and "map_of (runningProcesses s) i = None"
    and "\<not> existsSync s (inst_path inst)"
  shows "start_route i s =
           (Inl (PathMissing (inst_path inst)),
            broadcastLog i (''--- ERROR: Instance path not found: '' @ inst_path inst @ '' ---'')
              (proxy_injection i inst s))"
  unfolding start_route_def using assms by (simp add: Let_def)

lemma start_route_started:
  assumes "find (\<lambda>inst. inst_id inst = i) (instances s) = Some inst"
    and "map_of (runningProcesses s) i = None"
    and "existsSync s (inst_path inst)"
  shows "fst (start_route i s) = Inr ''Starting''"
    and "runningProcesses (snd (start_route i s)) = AList.update i (next_handle s) (runningProcesses s)"
    and "instances (snd (start_route i s)) = instances s"
  unfolding start_route_def using assms by (simp_all add: Let_def)

lemma start_route_cases:
  "(\<exists>e. fst (start_route i s) = Inl e \<and> effects (snd (start_route i s)) = effects s
        \<and> runningProcesses (snd (start_route i s)) = runningProcesses s)
   \<or> (\<exists>inst. find (\<lambda>inst. inst_id inst = i) (instances s) = Some inst
        \<and> map_of (runningProcesses s) i = None \<and> existsSync s (inst_path inst))"
proof (cases "find (\<lambda>inst. inst_id inst = i) (instances s)")
  case None
  then show ?thesis by (simp add: start_route_def)
next
  case (Some inst)
  show ?thesis
  proof (cases "map_of (runningProcesses s) i")
    case (Some child)
    then show ?thesis using start_route_running[OF Some] by (simp split: option.splits)
  next
    case None
    show ?thesis
    proof (cases "existsSync s (inst_path inst)")
      case True
      with None \<open>find _ _ = Some inst\<close> show ?thesis by simp
    next
      case False
      with None \<open>find _ _ = Some inst\<close> show ?thesis
        by (simp add: start_route_path_missing)
    qed
  qed
qed

text \<open>
  C5. While an entry for \<open>i\<close> is in the table of running processes, the start route
  fails and changes nothing: no process is spawned and the entry stays as it is; for a
  registered instance the failure is \<open>AlreadyRunning\<close>, so a second start right after a
  successful one fails with \<open>AlreadyRunning\<close>. When the instance is registered and not
  running but its path is not on the disk, the route fails with \<open>PathMissing\<close> without
  spawning and without an entry in the table.
\<close>

theorem start_route_guards:
  "(map_of (runningProcesses s) i = Some child \<longrightarrow>
      snd (start_route i s) = s \<and>
      (find (\<lambda>inst. inst_id inst = i) (instances s) = Some inst \<longrightarrow>
         fst (start_route i s) = Inl AlreadyRunning)) \<and>
   (fst (start_route i s) = Inr r \<longrightarrow>
      start_route i (snd (start_route i s)) = (Inl AlreadyRunning, snd (start_route i s))) \<and>
   (find (\<lambda>inst. inst_id inst = i) (instances s) = Some inst \<and>
    map_of (runningProcesses s) i = None \<and> \<not> existsSync s (inst_path inst) \<longrightarrow>
      fst (start_route i s) = Inl (PathMissing (inst_path inst)) \<and>
      effects (snd (start_route i s)) = effects s \<and>
      runningProcesses (snd (start_route i s)) = runningProcesses s \<and>
      next_handle (snd (start_route i s)) = next_handle s)"
proof (intro conjI impI)
  assume r: "map_of (runningProcesses s) i = Some child"
  show "snd (start_route i s) = s"
    by (simp add: start_route_running[OF r])
  show "fst (start_route i s) = Inl AlreadyRunning"
    if "find (\<lambda>inst. inst_id inst = i) (instances s) = Some inst"
    using that by (simp add: start_route_running[OF r])
next
  assume ok: "fst (start_route i s) = Inr r"
  with start_route_cases[of i s] obtain inst where
    f: "find (\<lambda>inst. inst_id inst = i) (instances s) = Some inst"
    and n: "map_of (runningProcesses s) i = None"
    and e: "existsSync s (inst_path inst)"
    by auto
  let ?s' = "snd (start_route i s)"
  have "map_of (runningProcesses ?s') i = Some (next_handle s)"
    by (simp add: start_route_started[OF f n e] update_conv')
  moreover have "find (\<lambda>inst. inst_id inst = i) (instances ?s') = Some inst"
    by (simp add: start_route_started[OF f n e] f)
  ultimately show "start_route i ?s' = (Inl AlreadyRunning, ?s')"
    by (simp add: start_route_running)
next
  assume a: "find (\<lambda>inst. inst_id inst = i) (instances s) = Some inst \<and>
    map_of (runningProcesses s) i = None \<and> \<not> existsSync s (inst_path inst)"
  then have eq: "start_route i s =
           (Inl (PathMissing (inst_path inst)),
            broadcastLog i (''--- ERROR: Instance path not found: '' @ inst_path inst @ '' ---'')
              (proxy_injection i inst s))"
    by (simp add: start_route_path_missing)
  show "fst (start_route i s) = Inl (PathMissing (inst_path inst))"
    "effects (snd (start_route i s)) = effects s"
    "runningProcesses (snd (start_route i s)) = runningProcesses s"
    "next_handle (snd (start_route i s)) = next_handle s"
    by (simp_all add: eq)
qed

theorem start_route_guards_witness:
  "map_of (runningProcesses one_running) ''1'' = Some 0 \<and>
   find (\<lambda>inst. inst_id inst = ''1'') (instances one_running) = Some alpha \<and>
   fst (start_route ''1'' one_running) = Inl AlreadyRunning \<and>
   snd (start_route ''1'' one_running) = one_running \<and>
   fst (start_route ''1'' registered) = Inr ''Starting'' \<and>
   start_route ''1'' (snd (start_route ''1'' registered))
     = (Inl AlreadyRunning, snd (start_route ''1'' registered)) \<and>
   \<not> existsSync (registered\<lparr>dirs := []\<rparr>) (inst_path alpha) \<and>
   fst (start_route ''1'' (registered\<lparr>dirs := []\<rparr>)) = Inl (PathMissing (inst_path alpha)) \<and>
   effects (snd (start_route ''1'' (registered\<lparr>dirs := []\<rparr>))) = []"
proof -
  have h1: "map_of (runningProcesses one_running) ''1'' = Some 0" by code_simp
  have h2: "find (\<lambda>inst. inst_id inst = ''1'') (instances one_running) = Some alpha"
    by code_simp
  have h3: "fst (start_route ''1'' registered) = Inr ''Starting''" by code_simp
  have h4: "find (\<lambda>inst. inst_id inst = ''1'') (instances (registered\<lparr>dirs := []\<rparr>)) = Some alpha"
    by code_simp
  have h5: "map_of (runningProcesses (registered\<lparr>dirs := []\<rparr>)) ''1'' = None" by code_simp
  have h6: "\<not> existsSync (registered\<lparr>dirs := []\<rparr>) (inst_path alpha)" by code_simp
  have h7: "effects (registered\<lparr>dirs := []\<rparr>) = []" by code_simp
  show ?thesis
    using h1 h2 h3 h4 h5 h6 h7
      start_route_guards[of one_running "''1''" 0 alpha]
      start_route_guards[of registered "''1''" _ _ "''Starting''"]
      start_route_guards[of "registered\<lparr>dirs := []\<rparr>" "''1''" _ alpha]
    by simp
qed

lemma stop_route_not_running:
  "map_of (runningProcesses s) i = None \<Longrightarrow> stop_route i s = (Inl NotRunning, s)"
  by (simp add: stop_route_def)

lemma stop_route_running:
  assumes "map_of (runningProcesses s) i = Some child"
  shows "stop_route i s =
     (Inr ''Stop signal sent'',
      broadcastLog i ''--- Instance Stopped ---''
        (broadcastStatus i ''stopped''
           ((add_effect (if win32 s then Exec (''taskkill /PID '' @ show_nat child @ '' /T /F'')
                         else Kill child ''SIGKILL'') s)
              \<lparr>runningProcesses := AList.delete i (runningProcesses s)\<rparr>)))"
  using assms by (simp add: stop_route_def Let_def add_effect_def)

text \<open>
  C8. Without an entry for \<open>i\<close> in the table of running processes the stop route fails
  with \<open>NotRunning\<close> and changes nothing at all. With an entry it removes the entry, sends
  the status \<open>stopped\<close> and then the log marker to every open socket, and stores the marker
  in the log of \<open>i\<close>, all before it answers; the entries and the logs of the other
  instances, and the rest of the state, stay as they were, and the only effect outside is
  the kill of the child of \<open>i\<close>.
\<close>

theorem stop_route_frame:
  "(map_of (runningProcesses s) i = None \<longrightarrow> stop_route i s = (Inl NotRunning, s)) \<and>
   (map_of (runningProcesses s) i = Some child \<longrightarrow>
      (let s' = snd (stop_route i s) in
         fst (stop_route i s) = Inr ''Stop signal sent'' \<and>
         map_of (runningProcesses s') i = None \<and>
         clients s' =
           map (deliver [STATUS i ''stopped'', LOG i ''--- Instance Stopped ---'']) (clients s) \<and>
         last (instance_buffer s' i) = ''--- Instance Stopped ---'' \<and>
         effects s' = effects s @
           [if win32 s then Exec (''taskkill /PID '' @ show_nat child @ '' /T /F'')
            else Kill child ''SIGKILL''] \<and>
         (\<forall>j. j \<noteq> i \<longrightarrow>
            map_of (runningProcesses s') j = map_of (runningProcesses s) j \<and>
            instance_buffer s' j = instance_buffer s j) \<and>
         hasStarted s' = hasStarted s \<and> terminalLogs s' = terminalLogs s \<and>
         terminalProcesses s' = terminalProcesses s \<and>
         globalLogHistory s' = globalLogHistory s \<and>
         instances s' = instances s \<and> redisProcess s' = redisProcess s))"
proof (intro conjI impI)
  assume "map_of (runningProcesses s) i = None"
  then show "stop_route i s = (Inl NotRunning, s)" by (rule stop_route_not_running)
next
  assume r: "map_of (runningProcesses s) i = Some child"
  note eq = stop_route_running[OF r]
  show "let s' = snd (stop_route i s) in
         fst (stop_route i s) = Inr ''Stop signal sent'' \<and>
         map_of (runningProcesses s') i = None \<and>
         clients s' =
           map (deliver [STATUS i ''stopped'', LOG i ''--- Instance Stopped ---'']) (clients s) \<and>
         last (instance_buffer s' i) = ''--- Instance Stopped ---'' \<and>
         effects s' = effects s @
           [if win32 s then Exec (''taskkill /PID '' @ show_nat child @ '' /T /F'')
            else Kill child ''SIGKILL''] \<and>
         (\<forall>j. j \<noteq> i \<longrightarrow>
            map_of (runningProcesses s') j = map_of (runningProcesses s) j \<and>
            instance_buffer s' j = instance_buffer s j) \<and>
         hasStarted s' = hasStarted s \<and> terminalLogs s' = terminalLogs s \<and>
         terminalProcesses s' = terminalProcesses s \<and>
         globalLogHistory s' = globalLogHistory s \<and>
         instances s' = instances s \<and> redisProcess s' = redisProcess s"
    unfolding Let_def eq snd_conv fst_conv
    by (simp add: last_instance_buffer_broadcastLog delete_conv')
       (simp add: instance_buffer_broadcastLog)
qed

theorem stop_route_frame_witness:
  "map_of (runningProcesses registered) ''1'' = None \<and>
   stop_route ''1'' registered = (Inl NotRunning, registered) \<and>
   map_of (runningProcesses two_running) ''1'' = Some 0 \<and>
   fst (stop_route ''1'' two_running) = Inr ''Stop signal sent'' \<and>
   map_of (runningProcesses (snd (stop_route ''1'' two_running))) ''1'' = None \<and>
   map_of (runningProcesses (snd (stop_route ''1'' two_running))) ''2'' = Some 1"
proof -
  have h1: "map_of (runningProcesses registered) ''1'' = None" by code_simp
  have h2: "map_of (runningProcesses two_running) ''1'' = Some 0" by code_simp
  have h3: "map_of (runningProcesses two_running) ''2'' = Some 1" by code_simp
  show ?thesis
    using h1 h2 h3 stop_route_frame[of registered "''1''" 0]
      stop_route_frame[of two_running "''1''" 0]
    by (simp add: Let_def)
qed

section \<open>Stopping Redis with the last instance\<close>

lemma stop_requests_frame [simp]:
  "stop_requests (broadcastLog i m s) = stop_requests s"
  "stop_requests (broadcastStatus i st s) = stop_requests s"
  "stop_requests (broadcastGlobalLog m s) = stop_requests s"
  "stop_requests (s\<lparr>runningProcesses := rp\<rparr>) = stop_requests s"
  "stop_requests (s\<lparr>hasStarted := hs\<rparr>) = stop_requests s"
  "stop_requests (s\<lparr>next_handle := n\<rparr>) = stop_requests s"
  "stop_requests (s\<lparr>clients := cs\<rparr>) = stop_requests s"
  "stop_requests (proxy_injection i inst s) = stop_requests s"
  by (simp_all add: stop_requests_def)

lemma stop_requests_add_effect [simp]:
  "stop_requests (add_effect e s) =
     stop_requests s @ (if e = redis_stop_request then [redis_stop_request] else [])"
  by (simp add: stop_requests_def)

lemma stop_requests_launch [simp]: "stop_requests (launch i inst child s) = stop_requests s"
  by (simp add: launch_def Let_def redis_stop_request_def)

lemma stop_requests_on_close:
  "stop_requests (on_close i code s) =
     stop_requests s @
       (if length (AList.delete i (runningProcesses s)) = 0 \<and> \<not> redisKeepAlive s
        then [redis_stop_request] else [])"
  by (simp add: on_close_def Let_def)

lemma stop_requests_stop_route: "stop_requests (snd (stop_route i s)) = stop_requests s"
  by (cases "map_of (runningProcesses s) i")
     (simp_all add: stop_route_def Let_def redis_stop_request_def)

lemma stop_requests_start_route: "stop_requests (snd (start_route i s)) = stop_requests s"
proof (cases "find (\<lambda>inst. inst_id inst = i) (instances s)")
  case None
  then show ?thesis by (simp add: start_route_def)
next
  case (Some inst)
  then show ?thesis by (simp add: start_route_def Let_def)
qed

lemma stop_requests_handlers:
  "stop_requests (on_stdout_data strip child i d s) = stop_requests s"
  "stop_requests (on_stderr_data strip child i d s) = stop_requests s"
  "stop_requests (on_error i m s) = stop_requests s"
  "stop_requests (connection s) = stop_requests s"
  by (simp_all add: on_stdout_data_def on_stderr_data_def on_error_def connection_def Let_def)

lemma redisKeepAlive_steps [simp]:
  "redisKeepAlive (snd (stop_route i s)) = redisKeepAlive s"
  "redisKeepAlive (on_close i code s) = redisKeepAlive s"
  by (cases "map_of (runningProcesses s) i";
      simp add: stop_route_def on_close_def Let_def add_effect_def)+

lemma runningProcesses_stop_route:
  "runningProcesses (snd (stop_route i s)) = AList.delete i (runningProcesses s)"
proof (cases "map_of (runningProcesses s) i")
  case None
  then have "i \<notin> fst ` set (runningProcesses s)"
    by (simp add: map_of_eq_None_iff)
  with None show ?thesis by (simp add: stop_route_def)
next
  case (Some child)
  then show ?thesis by (simp add: stop_route_def Let_def)
qed

lemma runningProcesses_on_close:
  "runningProcesses (on_close i code s) = AList.delete i (runningProcesses s)"
  by (simp add: on_close_def Let_def)

lemma delete_last_key:
  assumes "set (map fst al) \<subseteq> {k}"
  shows "AList.delete k al = []"
proof -
  have "map fst (AList.delete k al) = removeAll k (map fst al)"
    by (rule delete_keys)
  also have "\<dots> = []"
    using assms by (induction al) auto
  finally show ?thesis by simp
qed

lemma delete_other_key:
  assumes "b \<in> set (map fst al)" and "a \<noteq> b"
  shows "AList.delete a al \<noteq> []"
proof -
  have "b \<in> set (removeAll a (map fst al))"
    using assms by simp
  then have "b \<in> set (map fst (AList.delete a al))"
    by (simp add: delete_keys)
  then show ?thesis by auto
qed

text \<open>
  C1, as amended. The close handler of a child sends the request to stop Redis exactly
  when, after it has deleted the entry of its instance, the table of running processes is
  empty and the keep-alive flag is false; the start route, the stop route and the other
  handlers of a child never send it. With two instances running and the flag false, if the
  close handler of the first instance stopped runs before the second instance is stopped,
  stopping the first sends no request and stopping the second sends exactly one.
\<close>

theorem redis_auto_stop:
  "stop_requests (on_close i code s) =
     stop_requests s @
       (if length (AList.delete i (runningProcesses s)) = 0 \<and> \<not> redisKeepAlive s
        then [redis_stop_request] else []) \<and>
   stop_requests (snd (stop_route i s)) = stop_requests s \<and>
   stop_requests (snd (start_route i s)) = stop_requests s \<and>
   stop_requests (on_stdout_data strip child i d s) = stop_requests s \<and>
   stop_requests (on_stderr_data strip child i d s) = stop_requests s \<and>
   stop_requests (on_error i m s) = stop_requests s \<and>
   (a \<noteq> b \<and> set (map fst (runningProcesses s)) = {a, b} \<and> \<not> redisKeepAlive s \<longrightarrow>
      stop_requests (sup_run strip [Stop a, Close a ca] s) = stop_requests s \<and>
      stop_requests (sup_run strip [Stop a, Close a ca, Stop b, Close b cb] s)
        = stop_requests s @ [redis_stop_request])"
proof (intro conjI impI)
  assume h: "a \<noteq> b \<and> set (map fst (runningProcesses s)) = {a, b} \<and> \<not> redisKeepAlive s"
  let ?rp = "runningProcesses s"
  let ?s1 = "snd (stop_route a s)"
  let ?s2 = "on_close a ca ?s1"
  let ?s3 = "snd (stop_route b ?s2)"
  let ?s4 = "on_close b cb ?s3"
  have keys1: "set (map fst (AList.delete a ?rp)) = {b}"
    using h by (auto simp: delete_keys)
  have ne: "AList.delete a ?rp \<noteq> []"
    using keys1 by auto
  have rp2: "runningProcesses ?s2 = AList.delete a ?rp"
    by (simp add: runningProcesses_on_close runningProcesses_stop_route delete_idem)
  have rp1: "runningProcesses ?s1 = AList.delete a ?rp"
    by (rule runningProcesses_stop_route)
  have "AList.delete a (runningProcesses ?s1) = AList.delete a ?rp"
    unfolding rp1 by (rule delete_idem)
  with ne have ne1: "length (AList.delete a (runningProcesses ?s1)) \<noteq> 0"
    by simp
  have r2: "stop_requests ?s2 = stop_requests s"
    unfolding stop_requests_on_close using ne1
    by (simp add: stop_requests_stop_route)
  have empty: "AList.delete b (AList.delete a ?rp) = []"
    using keys1 by (intro delete_last_key) simp
  have rp3: "runningProcesses ?s3 = []"
    by (simp add: runningProcesses_stop_route rp2 empty)
  have ka: "\<not> redisKeepAlive ?s3"
    using h by simp
  have r4: "stop_requests ?s4 = stop_requests s @ [redis_stop_request]"
    unfolding stop_requests_on_close using ka
    by (simp add: stop_requests_stop_route rp3 r2)
  show "stop_requests (sup_run strip [Stop a, Close a ca] s) = stop_requests s"
    using r2 by (simp add: sup_run_def)
  show "stop_requests (sup_run strip [Stop a, Close a ca, Stop b, Close b cb] s)
          = stop_requests s @ [redis_stop_request]"
    using r4 by (simp add: sup_run_def)
qed (simp_all add: stop_requests_on_close stop_requests_stop_route stop_requests_start_route
       stop_requests_handlers)

theorem redis_auto_stop_witness:
  "''1'' \<noteq> ''2'' \<and> set (map fst (runningProcesses two_running)) = {''1'', ''2''} \<and>
   \<not> redisKeepAlive two_running \<and>
   stop_requests (sup_run (\<lambda>t. t) [Stop ''1'', Close ''1'' ''null''] two_running) = [] \<and>
   stop_requests
     (sup_run (\<lambda>t. t) [Stop ''1'', Close ''1'' ''null'', Stop ''2'', Close ''2'' ''null'']
        two_running) = [redis_stop_request]"
proof -
  have h1: "set (map fst (runningProcesses two_running)) = {''1'', ''2''}" by code_simp
  have h2: "\<not> redisKeepAlive two_running" by code_simp
  have h3: "stop_requests two_running = []" by code_simp
  show ?thesis
    using h1 h2 h3
      redis_auto_stop[where s = two_running and a = "''1''" and b = "''2''"
        and strip = "\<lambda>t. t" and ca = "''null''" and cb = "''null''"]
    by simp
qed

text \<open>
  The run that C1 as stated does not survive: two instances are started and both are
  stopped before either child has closed. The close handler of the first then finds the
  table empty and sends a request, and the close handler of the second sends another.
\<close>

theorem redis_auto_stop_counterexample:
  "stop_requests
     (sup_run (\<lambda>t. t)
        [Start ''1'', Start ''2'', Stop ''1'', Stop ''2'', Close ''1'' ''null'']
        registered) = [redis_stop_request] \<and>
   stop_requests
     (sup_run (\<lambda>t. t)
        [Start ''1'', Start ''2'', Stop ''1'', Stop ''2'', Close ''1'' ''null'',
         Close ''2'' ''null'']
        registered) = [redis_stop_request, redis_stop_request]"
  by code_simp

section \<open>From starting to running\<close>

lemma on_stdout_first:
  assumes "map_of (hasStarted s) child \<noteq> Some True"
  shows "clients (on_stdout_data strip child i d s)
           = map (deliver (chunk_log strip i d @ [STATUS i ''running''])) (clients s)"
    and "map_of (hasStarted (on_stdout_data strip child i d s)) child = Some True"
  using assms by (simp_all add: on_stdout_data_def chunk_log_def Let_def update_conv')

lemma on_stdout_later:
  assumes "map_of (hasStarted s) child = Some True"
  shows "clients (on_stdout_data strip child i d s) = map (deliver (chunk_log strip i d)) (clients s)"
    and "hasStarted (on_stdout_data strip child i d s) = hasStarted s"
  using assms by (simp_all add: on_stdout_data_def chunk_log_def Let_def)

lemma on_stderr:
  "clients (on_stderr_data strip child i d s) = map (deliver (chunk_log strip i d)) (clients s)"
  "hasStarted (on_stderr_data strip child i d s) = hasStarted s"
  by (simp_all add: on_stderr_data_def chunk_log_def Let_def)

lemma stderr_run:
  "list_all is_stderr evs \<Longrightarrow>
   hasStarted (sup_run strip evs s) = hasStarted s \<and>
   clients (sup_run strip evs s) = map (deliver (stderr_messages strip evs)) (clients s)"
proof (induction evs arbitrary: s)
  case Nil
  then show ?case by (simp add: sup_run_def)
next
  case (Cons e evs)
  then obtain child i d where e: "e = Stderr child i d"
    by (cases e) auto
  have run: "sup_run strip (Stderr child i d # evs) s
               = sup_run strip evs (on_stderr_data strip child i d s)"
    by (simp add: sup_run_def)
  from Cons.prems have "list_all is_stderr evs" by simp
  from Cons.IH[OF this, of "on_stderr_data strip child i d s"]
  show ?case by (simp add: run e on_stderr)
qed

lemma stderr_messages_no_status:
  "list_all is_stderr evs \<Longrightarrow> \<not> list_ex is_status (stderr_messages strip evs)"
proof (induction evs)
  case Nil
  then show ?case by simp
next
  case (Cons e evs)
  then obtain child i d where e: "e = Stderr child i d"
    by (cases e) auto
  with Cons show ?case by (simp add: chunk_log_def)
qed


section \<open>Replay to a new socket\<close>

lemma ws_send_deliver: "ws_send m c = deliver [m] c"
  by (simp add: ws_send_def deliver_def)

lemma send_if_open_eq: "send_if_open m c = deliver [m] c"
  by (simp add: send_if_open_def deliver_def ws_send_def)

lemma fold_deliver:
  "fold (\<lambda>msg c'. deliver [f msg] c') h c = deliver (map f h) c"
  by (induction h arbitrary: c) simp_all

lemma fold_ws_send:
  "fold (\<lambda>msg c'. ws_send (f msg) c') h c = deliver (map f h) c"
  by (simp add: ws_send_deliver fold_deliver)

lemma fold_deliver_pairs:
  "fold (\<lambda>(i, h) c. deliver (g i h) c) xs c = deliver (concat (map (\<lambda>(i, h). g i h) xs)) c"
  by (induction xs arbitrary: c) (simp_all split: prod.splits)

lemma if_deliver:
  "(if P then deliver [m] (deliver ms c) else deliver ms c)
     = deliver (ms @ (if P then [m] else [])) c"
  by simp

lemma log_history_handler_deliver:
  "log_history_handler s ws = deliver (log_replay s @ terminal_replay s) ws"
proof -
  have a: "(\<lambda>(i, h) c. fold (\<lambda>msg c'. send_if_open (LOG i msg) c') h c)
             = (\<lambda>(i, h) c. deliver (map (LOG i) h) c)"
    by (simp add: send_if_open_eq fold_deliver)
  have b: "(\<lambda>(i, h) c.
              (let c1 = fold (\<lambda>msg c'. send_if_open (TERMINAL_OUTPUT i msg) c') h c
               in if map_of (terminalProcesses s) i \<noteq> None
                  then send_if_open (TERMINAL_OPENED i) c1 else c1))
           = (\<lambda>(i, h) c. deliver (map (TERMINAL_OUTPUT i) h @
                   (if map_of (terminalProcesses s) i \<noteq> None then [TERMINAL_OPENED i] else [])) c)"
    unfolding Let_def send_if_open_eq fold_deliver if_deliver ..
  show ?thesis
    unfolding log_history_handler_def a b
    unfolding Let_def fold_deliver_pairs log_replay_def terminal_replay_def
    by simp
qed

lemma deliver_open: "deliver ms \<lparr> readyOpen = True, inbox = xs \<rparr> = \<lparr> readyOpen = True, inbox = xs @ ms \<rparr>"
  by (simp add: deliver_def)

lemma connection_clients:
  "clients (connection s) = clients s @ [\<lparr> readyOpen = True, inbox = replay s \<rparr>]"
  unfolding connection_def connectionHandlers_def Let_def fold_ws_send
  by (simp add: ws_send_deliver log_history_handler_deliver replay_def deliver_open)

lemma logs_for_append: "logs_for i (xs @ ys) = logs_for i xs @ logs_for i ys"
  by (induction i xs rule: logs_for.induct) simp_all

lemma global_logs_append: "global_logs (xs @ ys) = global_logs xs @ global_logs ys"
  by (induction xs rule: global_logs.induct) simp_all

lemma logs_for_map_LOG: "logs_for i (map (LOG j) h) = (if j = i then h else [])"
  by (induction h) auto

lemma logs_for_map_other [simp]:
  "logs_for i (map GLOBAL_LOG h) = []"
  "logs_for i (map (TERMINAL_OUTPUT j) h) = []"
  by (induction h) simp_all

lemma global_logs_map [simp]:
  "global_logs (map GLOBAL_LOG h) = h"
  "global_logs (map (LOG j) h) = []"
  "global_logs (map (TERMINAL_OUTPUT j) h) = []"
  by (induction h) simp_all

lemma logs_for_log_replay_aux:
  "distinct (map fst al) \<Longrightarrow>
   logs_for i (concat (map (\<lambda>(j, h). map (LOG j) h) al))
     = (case map_of al i of None \<Rightarrow> [] | Some h \<Rightarrow> h)"
proof (induction al)
  case Nil
  then show ?case by simp
next
  case (Cons p al)
  obtain j h where p: "p = (j, h)" by (cases p)
  show ?case
  proof (cases "j = i")
    case True
    with Cons.prems p have "i \<notin> fst ` set al" by auto
    then have "map_of al i = None" by (simp add: map_of_eq_None_iff)
    with Cons True p show ?thesis
      by (simp add: logs_for_append logs_for_map_LOG)
  next
    case False
    with Cons p show ?thesis
      by (simp add: logs_for_append logs_for_map_LOG)
  qed
qed

lemma logs_for_terminal_replay [simp]: "logs_for i (terminal_replay s) = []"
proof -
  have "logs_for i (concat (map (\<lambda>(j, h). map (TERMINAL_OUTPUT j) h @
           (if map_of tp j \<noteq> None then [TERMINAL_OPENED j] else [])) al)) = []" for tp :: "(string \<times> nat) list" and al
    by (induction al) (auto simp: logs_for_append)
  then show ?thesis by (simp add: terminal_replay_def)
qed

lemma global_logs_replays [simp]:
  "global_logs (log_replay s) = []"
  "global_logs (terminal_replay s) = []"
proof -
  have "global_logs (concat (map (\<lambda>(j, h). map (LOG j) h) al)) = []" for al
    by (induction al) (auto simp: global_logs_append)
  then show "global_logs (log_replay s) = []" by (simp add: log_replay_def)
  have "global_logs (concat (map (\<lambda>(j, h). map (TERMINAL_OUTPUT j) h @
           (if map_of tp j \<noteq> None then [TERMINAL_OPENED j] else [])) al)) = []" for tp :: "(string \<times> nat) list" and al
    by (induction al) (auto simp: global_logs_append)
  then show "global_logs (terminal_replay s) = []" by (simp add: terminal_replay_def)
qed

lemma logs_for_log_replay:
  "distinct (map fst (logHistory s)) \<Longrightarrow> logs_for i (log_replay s) = instance_buffer s i"
  by (simp add: log_replay_def logs_for_log_replay_aux instance_buffer_def)

lemma replay_complete:
  "global_logs (replay s) = globalLogHistory s"
  "distinct (map fst (logHistory s)) \<Longrightarrow> logs_for i (replay s) = instance_buffer s i"
  by (simp_all add: replay_def global_logs_append logs_for_append logs_for_log_replay)

lemma channel_step_observer:
  assumes "n < length (clients s)" and "readyOpen (clients s ! n)" and "e \<noteq> Closes n"
  shows "n < length (clients (channel_step e s))"
    and "readyOpen (clients (channel_step e s) ! n)"
    and "inbox (clients (channel_step e s) ! n) = inbox (clients s ! n) @ live [e]"
  using assms
  by (cases e; simp add: deliver_def connection_clients socket_closed_def nth_append
        nth_list_update)+

lemma channel_run_observer:
  assumes "n < length (clients s)" and "readyOpen (clients s ! n)" and "Closes n \<notin> set evs"
  shows "inbox (clients (channel_run evs s) ! n) = inbox (clients s ! n) @ live evs"
  using assms
proof (induction evs arbitrary: s)
  case Nil
  then show ?case by (simp add: channel_run_def)
next
  case (Cons e evs)
  then have ne: "e \<noteq> Closes n" and rest: "Closes n \<notin> set evs" by auto
  note st = channel_step_observer[OF Cons.prems(1,2) ne]
  have l: "live (e # evs) = live [e] @ live evs"
    by (cases e) simp_all
  have "channel_run (e # evs) s = channel_run evs (channel_step e s)"
    by (simp add: channel_run_def)
  then show ?case
    using Cons.IH[OF st(1) st(2) rest] by (simp add: st(3) l)
qed

lemma distinct_logHistory_step:
  "distinct (map fst (logHistory s)) \<Longrightarrow> distinct (map fst (logHistory (channel_step e s)))"
  by (cases e)
     (simp_all add: broadcastLog_def wsBroadcastLog_def Let_def distinct_update
        connection_def socket_closed_def)

lemma distinct_logHistory_run:
  "distinct (map fst (logHistory s)) \<Longrightarrow> distinct (map fst (logHistory (channel_run evs s)))"
  unfolding channel_run_def
  by (induction evs arbitrary: s) (simp_all add: distinct_logHistory_step)

text \<open>
  C2. A socket that connects is sent, by the connection callback itself, the whole global
  buffer and the whole log buffer of every instance, each in the order in which its lines
  were appended, each line once; whatever is broadcast after the callback arrives after
  all of that, once per broadcast, for as long as the socket stays open. (The keys of the
  log table stay distinct, so the buffer of an instance is one entry of the table.)
\<close>

theorem replay_before_live:
  "(Closes (length (clients s)) \<notin> set evs \<longrightarrow>
      inbox (clients (channel_run evs (connection s)) ! length (clients s))
        = replay s @ live evs) \<and>
   global_logs (replay s) = globalLogHistory s \<and>
   (distinct (map fst (logHistory s)) \<longrightarrow>
      logs_for i (replay s) = instance_buffer s i \<and>
      distinct (map fst (logHistory (channel_run evs s))))"
proof -
  let ?n = "length (clients s)"
  have c: "clients (connection s) ! ?n = \<lparr> readyOpen = True, inbox = replay s \<rparr>"
    by (simp add: connection_clients)
  have n: "?n < length (clients (connection s))"
    by (simp add: connection_clients)
  have "inbox (clients (channel_run evs (connection s)) ! ?n) = replay s @ live evs"
    if "Closes ?n \<notin> set evs"
    using channel_run_observer[OF n _ that] c by simp
  then show ?thesis
    by (simp add: replay_complete distinct_logHistory_run)
qed

theorem replay_before_live_witness:
  "Closes (length (clients logged)) \<notin> set [Log ''1'' ''c'', Global ''h''] \<and>
   distinct (map fst (logHistory logged)) \<and>
   inbox (clients (channel_run [Log ''1'' ''c'', Global ''h''] (connection logged)) ! 0)
     = [WELCOME, GLOBAL_LOG ''g'', LOG ''1'' ''a'', LOG ''1'' ''b'', LOG ''1'' ''c'',
        GLOBAL_LOG ''h''] \<and>
   logs_for ''1'' (replay logged) = [''a'', ''b'']"
proof -
  have h0: "length (clients logged) = 0" by code_simp
  have h1: "distinct (map fst (logHistory logged))" by code_simp
  have h2: "replay logged = [WELCOME, GLOBAL_LOG ''g'', LOG ''1'' ''a'', LOG ''1'' ''b'']"
    by code_simp
  have h3: "instance_buffer logged ''1'' = [''a'', ''b'']" by code_simp
  show ?thesis
    using h0 h1 h2 h3
      replay_before_live[of logged "[Log ''1'' ''c'', Global ''h'']" "''1''"]
    by simp
qed

section \<open>Which handlers send the status running\<close>

lemma started_set: "set (started s) = {c. map_of (hasStarted s) c = Some True}"
  by (auto simp: started_def dest: map_of_SomeD intro: rev_image_eqI)

lemma first_chunks_set:
  "set seen = set seen' \<Longrightarrow> first_chunks seen evs = first_chunks seen' evs"
proof (induction seen evs arbitrary: seen' rule: first_chunks.induct)
  case (2 seen child i d evs)
  then show ?case by simp
qed simp_all

lemma start_route_success_state:
  assumes "find (\<lambda>inst. inst_id inst = i) (instances s) = Some inst"
    and "map_of (runningProcesses s) i = None"
    and "existsSync s (inst_path inst)"
  shows "snd (start_route i s) =
           broadcastStatus i ''starting''
             ((launch i inst (next_handle s)
                 (broadcastLog i (''Working Directory: '' @ inst_path inst)
                    (broadcastLog i (''--- Starting Instance '' @ inst_name inst @ '' ---'')
                       (proxy_injection i inst s))))
              \<lparr>runningProcesses := AList.update i (next_handle s) (runningProcesses s),
                next_handle := Suc (next_handle s),
                hasStarted := AList.update (next_handle s) False (hasStarted s)\<rparr>)"
  unfolding start_route_def using assms by (simp add: Let_def)

lemma clients_proxy_injection:
  "\<exists>ms. clients (proxy_injection i inst s) = map (deliver ms) (clients s) \<and>
        filter is_running ms = []"
proof (cases "inst_proxy inst")
  case None
  then have "clients (proxy_injection i inst s) = map (deliver []) (clients s)"
    by (simp add: proxy_injection_def)
  then show ?thesis by (intro exI[of _ "[]"]) simp
next
  case (Some px)
  show ?thesis
  proof (cases "host px \<noteq> []")
    case True
    with Some have "clients (proxy_injection i inst s) =
        map (deliver [LOG i (''[SYSTEM] Using Proxy: '' @ proxy_log_url px)]) (clients s)"
      by (simp add: proxy_injection_def)
    then show ?thesis
      by (intro exI[of _ "[LOG i (''[SYSTEM] Using Proxy: '' @ proxy_log_url px)]"]) simp
  next
    case False
    with Some have "clients (proxy_injection i inst s) = map (deliver []) (clients s)"
      by (simp add: proxy_injection_def)
    then show ?thesis by (intro exI[of _ "[]"]) simp
  qed
qed

lemma clients_launch:
  "\<exists>m. clients (launch i inst child s) = map (deliver [LOG i m]) (clients s)"
proof (cases "(case inst_type inst of None \<Rightarrow> ''yunzai''
               | Some t \<Rightarrow> if t = [] then ''yunzai'' else t) = ''gsuid''")
  case True
  then have "clients (launch i inst child s)
               = map (deliver [LOG i ''Starting GSUID Core...'']) (clients s)"
    by (simp add: launch_def Let_def)
  then show ?thesis by blast
next
  case False
  then have "clients (launch i inst child s)
               = map (deliver [LOG i (''Using Node: '' @ execPath s)]) (clients s)"
    by (simp add: launch_def Let_def)
  then show ?thesis by blast
qed

lemma clients_start_route:
  "\<exists>ms. clients (snd (start_route i s)) = map (deliver ms) (clients s) \<and>
        filter is_running ms = []"
proof (cases "find (\<lambda>inst. inst_id inst = i) (instances s)")
  case None
  then have "clients (snd (start_route i s)) = map (deliver []) (clients s)"
    by (simp add: start_route_def)
  then show ?thesis by (intro exI[of _ "[]"]) simp
next
  case (Some inst)
  obtain pm where pm: "clients (proxy_injection i inst s) = map (deliver pm) (clients s)"
    and pmr: "filter is_running pm = []"
    using clients_proxy_injection by blast
  show ?thesis
  proof (cases "map_of (runningProcesses s) i")
    case (Some child)
    then have "clients (snd (start_route i s)) = map (deliver []) (clients s)"
      by (simp add: start_route_running)
    then show ?thesis by (intro exI[of _ "[]"]) simp
  next
    case None
    show ?thesis
    proof (cases "existsSync s (inst_path inst)")
      case False
      have "clients (snd (start_route i s)) =
              map (deliver (pm @ [LOG i (''--- ERROR: Instance path not found: ''
                                          @ inst_path inst @ '' ---'')])) (clients s)"
        using start_route_path_missing[OF \<open>find _ _ = Some inst\<close> None False] pm by simp
      then show ?thesis using pmr
        by (intro exI[of _ "pm @ [LOG i (''--- ERROR: Instance path not found: ''
                                          @ inst_path inst @ '' ---'')]"]) simp
    next
      case True
      let ?s3 = "broadcastLog i (''Working Directory: '' @ inst_path inst)
                    (broadcastLog i (''--- Starting Instance '' @ inst_name inst @ '' ---'')
                       (proxy_injection i inst s))"
      obtain m where m: "clients (launch i inst (next_handle s) ?s3)
                           = map (deliver [LOG i m]) (clients ?s3)"
        using clients_launch by blast
      have "clients (snd (start_route i s)) =
              map (deliver (pm @ [LOG i (''--- Starting Instance '' @ inst_name inst @ '' ---''),
                                  LOG i (''Working Directory: '' @ inst_path inst),
                                  LOG i m, STATUS i ''starting''])) (clients s)"
        unfolding start_route_success_state[OF \<open>find _ _ = Some inst\<close> None True]
        using m pm by simp
      then show ?thesis using pmr
        by (intro exI[of _ "pm @ [LOG i (''--- Starting Instance '' @ inst_name inst @ '' ---''),
                                  LOG i (''Working Directory: '' @ inst_path inst),
                                  LOG i m, STATUS i ''starting'']"]) simp
    qed
  qed
qed

lemma clients_stop_route:
  "\<exists>ms. clients (snd (stop_route i s)) = map (deliver ms) (clients s) \<and>
        filter is_running ms = []"
proof (cases "map_of (runningProcesses s) i")
  case None
  then have "clients (snd (stop_route i s)) = map (deliver []) (clients s)"
    by (simp add: stop_route_not_running)
  then show ?thesis by (intro exI[of _ "[]"]) simp
next
  case (Some child)
  have "clients (snd (stop_route i s)) =
          map (deliver [STATUS i ''stopped'', LOG i ''--- Instance Stopped ---'']) (clients s)"
    by (simp add: stop_route_running[OF Some])
  then show ?thesis
    by (intro exI[of _ "[STATUS i ''stopped'', LOG i ''--- Instance Stopped ---'']"]) simp
qed

lemma clients_on_error:
  "clients (on_error i m s) =
     map (deliver [LOG i (''--- Launch Error: '' @ m @ '' ---''), STATUS i ''stopped''])
       (clients s)"
  by (simp add: on_error_def Let_def)

lemma clients_on_close:
  "\<exists>ms. clients (on_close i code s) = map (deliver ms) (clients s) \<and>
        filter is_running ms = []"
proof -
  let ?l = "LOG i (''--- Instance Exited (Code: '' @ code @ '') ---'')"
  let ?g1 = "GLOBAL_LOG ''[SYSTEM] Last instance closed, stopping Redis...''"
  let ?g2 = "GLOBAL_LOG ''[SYSTEM] Redis locked - keeping alive''"
  have "clients (on_close i code s) =
          map (deliver ([?l, STATUS i ''stopped''] @
                 (if length (AList.delete i (runningProcesses s)) = 0
                  then (if \<not> redisKeepAlive s then [?g1] else [?g2]) else [])))
            (clients s)"
    by (simp add: on_close_def Let_def)
  then show ?thesis
    by (intro exI[of _ "[?l, STATUS i ''stopped''] @
                 (if length (AList.delete i (runningProcesses s)) = 0
                  then (if \<not> redisKeepAlive s then [?g1] else [?g2]) else [])"]) simp
qed

lemma hasStarted_start_route:
  "hasStarted (snd (start_route i s)) =
     (if fst (start_route i s) = Inr ''Starting''
      then AList.update (next_handle s) False (hasStarted s) else hasStarted s)"
  "next_handle (snd (start_route i s)) =
     (if fst (start_route i s) = Inr ''Starting'' then Suc (next_handle s) else next_handle s)"
proof -
  have "hasStarted (snd (start_route i s)) =
     (if fst (start_route i s) = Inr ''Starting''
      then AList.update (next_handle s) False (hasStarted s) else hasStarted s) \<and>
    next_handle (snd (start_route i s)) =
     (if fst (start_route i s) = Inr ''Starting'' then Suc (next_handle s) else next_handle s)"
  proof (cases "find (\<lambda>inst. inst_id inst = i) (instances s)")
    case None
    then show ?thesis by (simp add: start_route_def)
  next
    case (Some inst)
    show ?thesis
    proof (cases "map_of (runningProcesses s) i")
      case (Some child)
      then show ?thesis by (simp add: start_route_running split: option.splits)
    next
      case None
      show ?thesis
      proof (cases "existsSync s (inst_path inst)")
        case False
        then show ?thesis
          using start_route_path_missing[OF \<open>find _ _ = Some inst\<close> None False] by simp
      next
        case True
        show ?thesis
          using start_route_started(1)[OF \<open>find _ _ = Some inst\<close> None True]
            start_route_success_state[OF \<open>find _ _ = Some inst\<close> None True]
          by simp
      qed
    qed
  qed
  then show "hasStarted (snd (start_route i s)) =
     (if fst (start_route i s) = Inr ''Starting''
      then AList.update (next_handle s) False (hasStarted s) else hasStarted s)"
    "next_handle (snd (start_route i s)) =
     (if fst (start_route i s) = Inr ''Starting'' then Suc (next_handle s) else next_handle s)"
    by simp_all
qed

lemma start_route_answer:
  "fst (start_route i s) = Inr r \<Longrightarrow> r = ''Starting''"
  using start_route_cases[of i s] start_route_started(1)[of i s] by auto


lemma connection_frame [simp]:
  "hasStarted (connection s) = hasStarted s"
  "next_handle (connection s) = next_handle s"
  by (simp_all add: connection_def Let_def)

lemma stop_route_flags [simp]:
  "hasStarted (snd (stop_route i s)) = hasStarted s"
  "next_handle (snd (stop_route i s)) = next_handle s"
  by (cases "map_of (runningProcesses s) i";
      simp add: stop_route_not_running stop_route_running add_effect_def)+

lemma on_error_flags [simp]:
  "hasStarted (on_error i m s) = hasStarted s"
  "next_handle (on_error i m s) = next_handle s"
  by (simp_all add: on_error_def Let_def)

lemma on_close_flags [simp]:
  "hasStarted (on_close i code s) = hasStarted s"
  "next_handle (on_close i code s) = next_handle s"
  by (simp_all add: on_close_def Let_def)

lemma on_stderr_flags [simp]:
  "hasStarted (on_stderr_data strip child i d s) = hasStarted s"
  "next_handle (on_stderr_data strip child i d s) = next_handle s"
  by (simp_all add: on_stderr_data_def Let_def)

lemma on_stdout_flags:
  "map_of (hasStarted (on_stdout_data strip child i d s)) = (map_of (hasStarted s))(child \<mapsto> True)"
  "next_handle (on_stdout_data strip child i d s) = next_handle s"
  "set (map fst (hasStarted (on_stdout_data strip child i d s)))
     = insert child (set (map fst (hasStarted s)))"
proof -
  show "map_of (hasStarted (on_stdout_data strip child i d s)) = (map_of (hasStarted s))(child \<mapsto> True)"
    by (auto simp: on_stdout_data_def Let_def update_conv' fun_eq_iff)
  show "next_handle (on_stdout_data strip child i d s) = next_handle s"
    by (simp add: on_stdout_data_def Let_def)
  show "set (map fst (hasStarted (on_stdout_data strip child i d s)))
     = insert child (set (map fst (hasStarted s)))"
  proof (cases "map_of (hasStarted s) child = Some True")
    case True
    then have "child \<in> fst ` set (hasStarted s)"
      by (metis map_of_SomeD image_eqI fst_conv)
    moreover have "hasStarted (on_stdout_data strip child i d s) = hasStarted s"
      using True by (simp add: on_stdout_data_def Let_def)
    ultimately show ?thesis by auto
  next
    case False
    then have "hasStarted (on_stdout_data strip child i d s)
                 = AList.update child True (hasStarted s)"
      by (simp add: on_stdout_data_def Let_def)
    then show ?thesis by (auto simp: update_keys)
  qed
qed

lemma keys_update: "fst ` set (AList.update k v al) = insert k (fst ` set al)"
  by (induction al) auto

lemma handles_fresh_iff:
  "handles_fresh s \<longleftrightarrow> (\<forall>c. c \<in> fst ` set (hasStarted s) \<longrightarrow> c < next_handle s)"
  by (auto simp: handles_fresh_def list_all_iff)

lemma handles_fresh_step:
  assumes "handles_fresh s" and "spawned_chunks strip (e # evs) s"
  shows "handles_fresh (sup_step strip e s)"
proof (cases e)
  case (Start i)
  show ?thesis
    using assms(1) unfolding handles_fresh_iff Start
    by (auto simp: hasStarted_start_route keys_update less_Suc_eq)
next
  case (Stdout child i d)
  then have "child < next_handle s" using assms(2) by simp
  then show ?thesis
    using assms(1) unfolding handles_fresh_iff Stdout
    using on_stdout_flags(3)[of strip child i d s] by (auto simp: on_stdout_flags(2))
qed (use assms(1) in \<open>simp_all add: handles_fresh_iff\<close>)

lemma spawned_chunks_step:
  "spawned_chunks strip (e # evs) s \<Longrightarrow> spawned_chunks strip evs (sup_step strip e s)"
  by (cases e) simp_all

lemma started_step:
  assumes "handles_fresh s"
  shows "set (started (sup_step strip e s)) =
           (case e of Stdout child i d \<Rightarrow> insert child (set (started s))
            | _ \<Rightarrow> set (started s))"
proof (cases e)
  case (Start i)
  have "next_handle s \<notin> fst ` set (hasStarted s)"
    using assms by (auto simp: handles_fresh_iff)
  then have "map_of (hasStarted s) (next_handle s) = None"
    by (simp add: map_of_eq_None_iff)
  then show ?thesis
    unfolding Start started_set
    by (auto simp: hasStarted_start_route update_conv')
next
  case (Stdout child i d)
  show ?thesis unfolding Stdout started_set by (auto simp: on_stdout_flags)
qed (simp_all add: started_set)

lemma sup_step_observer:
  assumes "n < length (clients s)" and "readyOpen (clients s ! n)"
  shows "n < length (clients (sup_step strip e s))"
    and "readyOpen (clients (sup_step strip e s) ! n)"
    and "\<exists>ms. inbox (clients (sup_step strip e s) ! n) = inbox (clients s ! n) @ ms \<and>
              filter is_running ms =
                (case e of
                   Stdout child i d \<Rightarrow>
                     if map_of (hasStarted s) child = Some True then []
                     else [STATUS i ''running'']
                 | _ \<Rightarrow> [])"
proof -
  have "\<exists>ms. (clients (sup_step strip e s) ! n = deliver ms (clients s ! n) \<and>
              n < length (clients (sup_step strip e s))) \<and>
             filter is_running ms =
                (case e of
                   Stdout child i d \<Rightarrow>
                     if map_of (hasStarted s) child = Some True then []
                     else [STATUS i ''running'']
                 | _ \<Rightarrow> [])"
  proof (cases e)
    case (Start i)
    obtain ms where "clients (snd (start_route i s)) = map (deliver ms) (clients s)"
      and "filter is_running ms = []"
      using clients_start_route by blast
    then show ?thesis using assms(1) by (intro exI[of _ ms]) (simp add: Start)
  next
    case (Stop i)
    obtain ms where "clients (snd (stop_route i s)) = map (deliver ms) (clients s)"
      and "filter is_running ms = []"
      using clients_stop_route by blast
    then show ?thesis using assms(1) by (intro exI[of _ ms]) (simp add: Stop)
  next
    case (Stdout child i d)
    show ?thesis
    proof (cases "map_of (hasStarted s) child = Some True")
      case True
      show ?thesis
        using assms(1) True on_stdout_later(1)[OF True, of strip i d]
        by (intro exI[of _ "chunk_log strip i d"]) (simp add: Stdout chunk_log_def)
    next
      case False
      show ?thesis
        using assms(1) False on_stdout_first(1)[OF False, of strip i d]
        by (intro exI[of _ "chunk_log strip i d @ [STATUS i ''running'']"])
           (simp add: Stdout chunk_log_def)
    qed
  next
    case (Stderr child i d)
    show ?thesis
      using assms(1) on_stderr(1)[of strip child i d s]
      by (intro exI[of _ "chunk_log strip i d"]) (simp add: Stderr chunk_log_def)
  next
    case (ChildError i m)
    show ?thesis
      using assms(1)
      by (intro exI[of _ "[LOG i (''--- Launch Error: '' @ m @ '' ---''), STATUS i ''stopped'']"])
         (simp add: ChildError clients_on_error)
  next
    case (Close i code)
    obtain ms where "clients (on_close i code s) = map (deliver ms) (clients s)"
      and "filter is_running ms = []"
      using clients_on_close by blast
    then show ?thesis using assms(1) by (intro exI[of _ ms]) (simp add: Close)
  next
    case Connect
    show ?thesis
      using assms(1)
      by (intro exI[of _ "[]"]) (simp add: Connect connection_clients nth_append)
  qed
  then obtain ms where a: "clients (sup_step strip e s) ! n = deliver ms (clients s ! n)"
    and b: "n < length (clients (sup_step strip e s))"
    and c: "filter is_running ms =
                (case e of
                   Stdout child i d \<Rightarrow>
                     if map_of (hasStarted s) child = Some True then []
                     else [STATUS i ''running'']
                 | _ \<Rightarrow> [])"
    by blast
  show "n < length (clients (sup_step strip e s))" by (rule b)
  show "readyOpen (clients (sup_step strip e s) ! n)"
    using assms(2) by (simp add: a deliver_def)
  show "\<exists>ms. inbox (clients (sup_step strip e s) ! n) = inbox (clients s ! n) @ ms \<and>
              filter is_running ms =
                (case e of
                   Stdout child i d \<Rightarrow>
                     if map_of (hasStarted s) child = Some True then []
                     else [STATUS i ''running'']
                 | _ \<Rightarrow> [])"
    using assms(2) c by (intro exI[of _ ms]) (simp add: a deliver_def)
qed


lemma sup_run_Cons: "sup_run strip (e # evs) s = sup_run strip evs (sup_step strip e s)"
  by (simp add: sup_run_def)

lemma first_chunks_step:
  "first_chunks seen (e # evs) =
     (case e of
        Stdout child i d \<Rightarrow>
          if child \<in> set seen then first_chunks seen evs
          else STATUS i ''running'' # first_chunks (child # seen) evs
      | _ \<Rightarrow> first_chunks seen evs)"
  by (cases e) simp_all

lemma sup_run_observer:
  assumes "handles_fresh s" and "spawned_chunks strip evs s"
    and "n < length (clients s)" and "readyOpen (clients s ! n)"
  shows "\<exists>ms. inbox (clients (sup_run strip evs s) ! n) = inbox (clients s ! n) @ ms \<and>
              filter is_running ms = first_chunks (started s) evs"
  using assms
proof (induction evs arbitrary: s)
  case Nil
  then show ?case by (simp add: sup_run_def)
next
  case (Cons e evs)
  let ?s = "sup_step strip e s"
  note ob = sup_step_observer[OF Cons.prems(3,4), of strip e]
  have hf: "handles_fresh ?s" by (rule handles_fresh_step[OF Cons.prems(1,2)])
  have sc: "spawned_chunks strip evs ?s" by (rule spawned_chunks_step[OF Cons.prems(2)])
  obtain ms1 where m1: "inbox (clients ?s ! n) = inbox (clients s ! n) @ ms1"
    and r1: "filter is_running ms1 =
                (case e of
                   Stdout child i d \<Rightarrow>
                     if map_of (hasStarted s) child = Some True then []
                     else [STATUS i ''running'']
                 | _ \<Rightarrow> [])"
    using ob(3) by blast
  obtain ms2 where m2: "inbox (clients (sup_run strip evs ?s) ! n) = inbox (clients ?s ! n) @ ms2"
    and r2: "filter is_running ms2 = first_chunks (started ?s) evs"
    using Cons.IH[OF hf sc ob(1) ob(2)] by blast
  have st: "set (started ?s) =
           (case e of Stdout child i d \<Rightarrow> insert child (set (started s))
            | _ \<Rightarrow> set (started s))"
    by (rule started_step[OF Cons.prems(1)])
  have "filter is_running (ms1 @ ms2) = first_chunks (started s) (e # evs)"
  proof (cases e)
    case (Stdout child i d)
    show ?thesis
    proof (cases "map_of (hasStarted s) child = Some True")
      case True
      then have "child \<in> set (started s)" by (simp add: started_set)
      then have "set (started ?s) = set (started s)" using st Stdout by auto
      then have "first_chunks (started ?s) evs = first_chunks (started s) evs"
        by (rule first_chunks_set)
      with True \<open>child \<in> set (started s)\<close> show ?thesis
        using r1 r2 by (simp add: Stdout)
    next
      case False
      then have ni: "child \<notin> set (started s)" by (simp add: started_set)
      have "set (started ?s) = set (child # started s)" using st Stdout by auto
      then have "first_chunks (started ?s) evs = first_chunks (child # started s) evs"
        by (rule first_chunks_set)
      with False ni show ?thesis
        using r1 r2 by (simp add: Stdout)
    qed
  next
    case (Start i)
    have "first_chunks (started ?s) evs = first_chunks (started s) evs"
      using st by (intro first_chunks_set) (simp add: Start)
    then show ?thesis using r1 r2 by (simp add: Start)
  next
    case (Stop i)
    have "first_chunks (started ?s) evs = first_chunks (started s) evs"
      using st by (intro first_chunks_set) (simp add: Stop)
    then show ?thesis using r1 r2 by (simp add: Stop)
  next
    case (Stderr child i d)
    have "first_chunks (started ?s) evs = first_chunks (started s) evs"
      using st by (intro first_chunks_set) (simp add: Stderr)
    then show ?thesis using r1 r2 by (simp add: Stderr)
  next
    case (ChildError i m)
    have "first_chunks (started ?s) evs = first_chunks (started s) evs"
      using st by (intro first_chunks_set) (simp add: ChildError)
    then show ?thesis using r1 r2 by (simp add: ChildError)
  next
    case (Close i code)
    have "first_chunks (started ?s) evs = first_chunks (started s) evs"
      using st by (intro first_chunks_set) (simp add: Close)
    then show ?thesis using r1 r2 by (simp add: Close)
  next
    case Connect
    have "first_chunks (started ?s) evs = first_chunks (started s) evs"
      using st by (intro first_chunks_set) (simp add: Connect)
    then show ?thesis using r1 r2 by (simp add: Connect)
  qed
  then show ?case
    by (intro exI[of _ "ms1 @ ms2"]) (simp add: sup_run_Cons m1 m2)
qed

lemma sup_run_sent:
  assumes "handles_fresh s" and "spawned_chunks strip evs s"
    and "n < length (clients s)" and "readyOpen (clients s ! n)"
  shows "filter is_running (sent_to n s (sup_run strip evs s)) = first_chunks (started s) evs"
proof -
  obtain ms where "inbox (clients (sup_run strip evs s) ! n) = inbox (clients s ! n) @ ms"
    and "filter is_running ms = first_chunks (started s) evs"
    using sup_run_observer[OF assms] by blast
  then show ?thesis by (simp add: sent_to_def)
qed

lemma flag_step:
  assumes "handles_fresh s" and "c < next_handle s"
  shows "map_of (hasStarted (sup_step strip e s)) c = Some True \<longleftrightarrow>
           map_of (hasStarted s) c = Some True \<or> stdout_of c e"
proof (cases e)
  case (Start i)
  show ?thesis using assms(2) by (simp add: Start hasStarted_start_route update_conv')
next
  case (Stdout child i d)
  show ?thesis by (simp add: Stdout on_stdout_flags)
qed simp_all

lemma next_handle_step: "next_handle s \<le> next_handle (sup_step strip e s)"
  by (cases e) (simp_all add: hasStarted_start_route on_stdout_flags)

lemma sup_run_flags:
  assumes "handles_fresh s" and "spawned_chunks strip evs s" and "c < next_handle s"
  shows "map_of (hasStarted (sup_run strip evs s)) c = Some True \<longleftrightarrow>
           map_of (hasStarted s) c = Some True \<or> list_ex (stdout_of c) evs"
  using assms
proof (induction evs arbitrary: s)
  case Nil
  then show ?case by (simp add: sup_run_def)
next
  case (Cons e evs)
  have hf: "handles_fresh (sup_step strip e s)" by (rule handles_fresh_step[OF Cons.prems(1,2)])
  have sc: "spawned_chunks strip evs (sup_step strip e s)"
    by (rule spawned_chunks_step[OF Cons.prems(2)])
  have lt: "c < next_handle (sup_step strip e s)"
    using Cons.prems(3) next_handle_step[of s strip e] by simp
  show ?case
    using Cons.IH[OF hf sc lt] flag_step[OF Cons.prems(1,3), of strip e]
    by (simp add: sup_run_Cons)
qed

lemma start_route_new_child:
  assumes "fst (start_route i s) = Inr r"
  shows "map_of (hasStarted (snd (start_route i s))) (next_handle s) = Some False"
    and "map_of (runningProcesses (snd (start_route i s))) i = Some (next_handle s)"
    and "next_handle (snd (start_route i s)) = Suc (next_handle s)"
proof -
  have r: "fst (start_route i s) = Inr ''Starting''"
    using assms start_route_answer[OF assms] by simp
  show "map_of (hasStarted (snd (start_route i s))) (next_handle s) = Some False"
    "next_handle (snd (start_route i s)) = Suc (next_handle s)"
    using r by (simp_all add: hasStarted_start_route update_conv')
  from start_route_cases[of i s] assms obtain inst where
    "find (\<lambda>inst. inst_id inst = i) (instances s) = Some inst"
    "map_of (runningProcesses s) i = None" "existsSync s (inst_path inst)"
    by auto
  from start_route_started(2)[OF this]
  show "map_of (runningProcesses (snd (start_route i s))) i = Some (next_handle s)"
    by (simp add: update_conv')
qed

lemma handles_fresh_start_route:
  "handles_fresh s \<Longrightarrow> handles_fresh (snd (start_route i s))"
  using handles_fresh_step[of s "\<lambda>t. t" "Start i" "[]"] by simp

lemma handles_fresh_init: "handles_fresh init_server"
  by (simp add: handles_fresh_def init_server_def)

lemma handles_fresh_run:
  "handles_fresh s \<Longrightarrow> spawned_chunks strip evs s \<Longrightarrow> handles_fresh (sup_run strip evs s)"
proof (induction evs arbitrary: s)
  case Nil
  then show ?case by (simp add: sup_run_def)
next
  case (Cons e evs)
  show ?case
    using Cons.IH[OF handles_fresh_step[OF Cons.prems] spawned_chunks_step[OF Cons.prems(2)]]
    by (simp add: sup_run_Cons)
qed

text \<open>
  C6, as amended. The start route gives the child it spawns a flag that is not set. The
  first chunk that arrives on the standard output of a child, whether or not the chunk
  holds a non-empty line, sets the flag of that child and sends the status \<open>running\<close> for
  its instance; no later chunk of the child sends it. Chunks on standard error log their
  line and never send a status nor set the flag. Over any run of the start and stop
  routes, of the output, error and close handlers and of connecting sockets, an open
  socket receives the status \<open>running\<close> exactly once for each child that has its first
  chunk on standard output in the run, in the order of these chunks, and from nothing
  else; and the flag of a child is set at the end exactly when it was set at the
  beginning or the run holds a chunk on the standard output of that child: a child that
  writes only to standard error, or nothing, stays in \<open>starting\<close> however long it runs.
\<close>

theorem running_on_first_stdout_chunk:
  "(map_of (hasStarted s) child \<noteq> Some True \<longrightarrow>
      clients (on_stdout_data strip child i d s)
        = map (deliver (chunk_log strip i d @ [STATUS i ''running''])) (clients s) \<and>
      map_of (hasStarted (on_stdout_data strip child i d s)) child = Some True) \<and>
   (map_of (hasStarted s) child = Some True \<longrightarrow>
      clients (on_stdout_data strip child i d s) = map (deliver (chunk_log strip i d)) (clients s) \<and>
      hasStarted (on_stdout_data strip child i d s) = hasStarted s) \<and>
   (list_all is_stderr evs \<longrightarrow>
      hasStarted (sup_run strip evs s) = hasStarted s \<and>
      clients (sup_run strip evs s) = map (deliver (stderr_messages strip evs)) (clients s) \<and>
      \<not> list_ex is_status (stderr_messages strip evs)) \<and>
   (fst (start_route i s) = Inr r \<longrightarrow>
      map_of (hasStarted (snd (start_route i s))) (next_handle s) = Some False \<and>
      map_of (runningProcesses (snd (start_route i s))) i = Some (next_handle s) \<and>
      next_handle (snd (start_route i s)) = Suc (next_handle s)) \<and>
   (handles_fresh s \<and> spawned_chunks strip evs s \<longrightarrow>
      handles_fresh (sup_run strip evs s) \<and>
      (n < length (clients s) \<and> readyOpen (clients s ! n) \<longrightarrow>
         filter is_running (sent_to n s (sup_run strip evs s)) = first_chunks (started s) evs) \<and>
      (c < next_handle s \<longrightarrow>
         (map_of (hasStarted (sup_run strip evs s)) c = Some True \<longleftrightarrow>
            map_of (hasStarted s) c = Some True \<or> list_ex (stdout_of c) evs)))"
proof (intro conjI impI)
  assume a: "map_of (hasStarted s) child \<noteq> Some True"
  show "clients (on_stdout_data strip child i d s)
        = map (deliver (chunk_log strip i d @ [STATUS i ''running''])) (clients s)"
    by (rule on_stdout_first(1)[OF a])
  show "map_of (hasStarted (on_stdout_data strip child i d s)) child = Some True"
    by (rule on_stdout_first(2)[OF a])
next
  assume a: "map_of (hasStarted s) child = Some True"
  show "clients (on_stdout_data strip child i d s) = map (deliver (chunk_log strip i d)) (clients s)"
    by (rule on_stdout_later(1)[OF a])
  show "hasStarted (on_stdout_data strip child i d s) = hasStarted s"
    by (rule on_stdout_later(2)[OF a])
next
  assume a: "list_all is_stderr evs"
  show "hasStarted (sup_run strip evs s) = hasStarted s"
    "clients (sup_run strip evs s) = map (deliver (stderr_messages strip evs)) (clients s)"
    using stderr_run[OF a, of strip s] by simp_all
  show "\<not> list_ex is_status (stderr_messages strip evs)"
    by (rule stderr_messages_no_status[OF a])
next
  assume a: "fst (start_route i s) = Inr r"
  show "map_of (hasStarted (snd (start_route i s))) (next_handle s) = Some False"
    by (rule start_route_new_child(1)[OF a])
  show "map_of (runningProcesses (snd (start_route i s))) i = Some (next_handle s)"
    by (rule start_route_new_child(2)[OF a])
  show "next_handle (snd (start_route i s)) = Suc (next_handle s)"
    by (rule start_route_new_child(3)[OF a])
next
  assume a: "handles_fresh s \<and> spawned_chunks strip evs s"
  then show "handles_fresh (sup_run strip evs s)"
    by (simp add: handles_fresh_run)
  {
    assume b: "n < length (clients s) \<and> readyOpen (clients s ! n)"
    show "filter is_running (sent_to n s (sup_run strip evs s)) = first_chunks (started s) evs"
      using a b by (simp add: sup_run_sent)
  }
  {
    assume b: "c < next_handle s"
    show "map_of (hasStarted (sup_run strip evs s)) c = Some True \<longleftrightarrow>
            map_of (hasStarted s) c = Some True \<or> list_ex (stdout_of c) evs"
      using a b by (simp add: sup_run_flags)
  }
qed

theorem running_on_first_stdout_chunk_witness:
  "map_of (hasStarted (connection one_running)) 0 \<noteq> Some True \<and>
   clients (on_stdout_data (\<lambda>t. t) 0 ''1'' ''up'' (connection one_running))
     = map (deliver [LOG ''1'' ''up'', STATUS ''1'' ''running'']) (clients (connection one_running)) \<and>
   map_of (hasStarted (on_stdout_data (\<lambda>t. t) 0 ''1'' ''up'' one_running)) 0 = Some True \<and>
   clients (on_stdout_data (\<lambda>t. t) 0 ''1'' ''more''
              (on_stdout_data (\<lambda>t. t) 0 ''1'' ''up'' one_running))
     = map (deliver [LOG ''1'' ''more''])
         (clients (on_stdout_data (\<lambda>t. t) 0 ''1'' ''up'' one_running)) \<and>
   list_all is_stderr [Stderr 0 ''1'' ''ready''] \<and>
   hasStarted (sup_run (\<lambda>t. t) [Stderr 0 ''1'' ''ready''] one_running) = hasStarted one_running \<and>
   fst (start_route ''2'' watched) = Inr ''Starting'' \<and>
   map_of (hasStarted (snd (start_route ''2'' watched))) 1 = Some False \<and>
   map_of (runningProcesses (snd (start_route ''2'' watched))) ''2'' = Some 1 \<and>
   handles_fresh watched \<and> spawned_chunks (\<lambda>t. t) restart_chunks watched \<and>
   0 < length (clients watched) \<and> readyOpen (clients watched ! 0) \<and>
   filter is_running (sent_to 0 watched (sup_run (\<lambda>t. t) restart_chunks watched))
     = [STATUS ''1'' ''running''] \<and>
   0 < next_handle watched \<and>
   map_of (hasStarted (sup_run (\<lambda>t. t) restart_chunks watched)) 0 \<noteq> Some True \<and>
   map_of (hasStarted (sup_run (\<lambda>t. t) restart_chunks watched)) 1 = Some True"
proof -
  have h1: "map_of (hasStarted (connection one_running)) 0 \<noteq> Some True" by code_simp
  have h2: "map_of (hasStarted (on_stdout_data (\<lambda>t. t) 0 ''1'' ''up'' one_running)) 0 = Some True"
    by code_simp
  have h3: "list_all is_stderr [Stderr 0 ''1'' ''ready'']" by simp
  have c1: "chunk_log (\<lambda>t. t) ''1'' ''up'' = [LOG ''1'' ''up'']" by code_simp
  have c2: "chunk_log (\<lambda>t. t) ''1'' ''more'' = [LOG ''1'' ''more'']" by code_simp
  have h4: "fst (start_route ''2'' watched) = Inr ''Starting''" by code_simp
  have h5: "next_handle watched = 1" by code_simp
  have h6: "handles_fresh watched" by code_simp
  have h7: "spawned_chunks (\<lambda>t. t) restart_chunks watched" by code_simp
  have h8: "0 < length (clients watched) \<and> readyOpen (clients watched ! 0)" by code_simp
  have h9: "first_chunks (started watched) restart_chunks = [STATUS ''1'' ''running'']"
    by code_simp
  have h10: "map_of (hasStarted watched) 0 \<noteq> Some True \<and>
             map_of (hasStarted watched) 1 \<noteq> Some True" by code_simp
  have h11: "\<not> list_ex (stdout_of 0) restart_chunks \<and> list_ex (stdout_of 1) restart_chunks"
    by code_simp
  note w = running_on_first_stdout_chunk[where s = watched and i = "''2''" and r = "''Starting''"
        and strip = "\<lambda>t. t" and evs = restart_chunks and n = 0 and c = 0
        and child = 0 and d = "''up''"]
  have n1: "map_of (hasStarted (snd (start_route ''2'' watched))) 1 = Some False"
    "map_of (runningProcesses (snd (start_route ''2'' watched))) ''2'' = Some 1"
    using w h4 h5 by simp_all
  have n2: "filter is_running (sent_to 0 watched (sup_run (\<lambda>t. t) restart_chunks watched))
     = [STATUS ''1'' ''running'']"
    using w h6 h7 h8 h9 by simp
  have n3: "map_of (hasStarted (sup_run (\<lambda>t. t) restart_chunks watched)) 0 \<noteq> Some True"
    using w h5 h6 h7 h10 h11 by simp
  have n4: "map_of (hasStarted (sup_run (\<lambda>t. t) restart_chunks watched)) 1 = Some True"
    by code_simp
  have old: "map_of (hasStarted (connection one_running)) 0 \<noteq> Some True \<and>
   clients (on_stdout_data (\<lambda>t. t) 0 ''1'' ''up'' (connection one_running))
     = map (deliver [LOG ''1'' ''up'', STATUS ''1'' ''running'']) (clients (connection one_running)) \<and>
   map_of (hasStarted (on_stdout_data (\<lambda>t. t) 0 ''1'' ''up'' one_running)) 0 = Some True \<and>
   clients (on_stdout_data (\<lambda>t. t) 0 ''1'' ''more''
              (on_stdout_data (\<lambda>t. t) 0 ''1'' ''up'' one_running))
     = map (deliver [LOG ''1'' ''more''])
         (clients (on_stdout_data (\<lambda>t. t) 0 ''1'' ''up'' one_running)) \<and>
   list_all is_stderr [Stderr 0 ''1'' ''ready''] \<and>
   hasStarted (sup_run (\<lambda>t. t) [Stderr 0 ''1'' ''ready''] one_running) = hasStarted one_running"
    using h1 h2 h3 c1 c2
      running_on_first_stdout_chunk[where s = "connection one_running" and child = 0
        and strip = "\<lambda>t. t" and i = "''1''" and d = "''up''" and evs = "[]"]
      running_on_first_stdout_chunk[where s = "on_stdout_data (\<lambda>t. t) 0 ''1'' ''up'' one_running"
        and child = 0 and strip = "\<lambda>t. t" and i = "''1''" and d = "''more''" and evs = "[]"]
      running_on_first_stdout_chunk[where s = one_running and child = 0
        and strip = "\<lambda>t. t" and i = "''1''" and d = "''up''"
        and evs = "[Stderr 0 ''1'' ''ready'']"]
    by simp
  show ?thesis
    using old h4 n1 h6 h7 h8 n2 h5 n3 n4 by simp
qed

text \<open>
  The status names the instance, not the child: when \<open>alpha\<close> is stopped and started
  again, and the first chunk of the child that was stopped arrives only then, the socket
  is told that \<open>alpha\<close> is running though the new child has written nothing.
\<close>

lemma late_chunk_of_previous_child:
  "filter is_running
     (sent_to 0 watched
        (sup_run (\<lambda>t. t) [Stop ''1'', Start ''1'', Stdout 0 ''1'' ''late''] watched))
     = [STATUS ''1'' ''running''] \<and>
   map_of (runningProcesses
             (sup_run (\<lambda>t. t) [Stop ''1'', Start ''1'', Stdout 0 ''1'' ''late''] watched)) ''1''
     = Some 1 \<and>
   map_of (hasStarted
             (sup_run (\<lambda>t. t) [Stop ''1'', Start ''1'', Stdout 0 ''1'' ''late''] watched)) 1
     = Some False"
  by code_simp

text \<open>
  Where C6 as stated fails: a chunk of two spaces on standard output, which holds no line,
  sends \<open>running\<close> and logs nothing; a line on standard error is logged and sends no
  status, and the flag stays false.
\<close>

theorem running_on_first_stdout_chunk_counterexample:
  "js_trim ''  '' = [] \<and>
   map_of (hasStarted one_running) 0 = Some False \<and>
   map_of (hasStarted (on_stdout_data (\<lambda>t. t) 0 ''1'' ''  '' one_running)) 0 = Some True \<and>
   instance_buffer (on_stdout_data (\<lambda>t. t) 0 ''1'' ''  '' one_running) ''1''
     = instance_buffer one_running ''1'' \<and>
   inbox (last (clients (on_stdout_data (\<lambda>t. t) 0 ''1'' ''  '' (connection one_running))))
     = inbox (last (clients (connection one_running))) @ [STATUS ''1'' ''running''] \<and>
   map_of (hasStarted (on_stderr_data (\<lambda>t. t) 0 ''1'' ''ready'' one_running)) 0 = Some False \<and>
   inbox (last (clients (on_stderr_data (\<lambda>t. t) 0 ''1'' ''ready'' (connection one_running))))
     = inbox (last (clients (connection one_running))) @ [LOG ''1'' ''ready'']"
  by code_simp

section \<open>The port of an instance\<close>

lemma digit_not_whitespace: "js_digit c \<Longrightarrow> \<not> js_whitespace c"
  by (auto simp: js_digit_def js_whitespace_def)

lemma match_port_at_here:
  assumes "list_all js_whitespace ws" and "ds \<noteq> []" and "list_all js_digit ds"
    and "rest = [] \<or> \<not> js_digit (hd rest)"
  shows "match_port_at (''port:'' @ ws @ ds @ rest) = Some ds"
proof -
  obtain d ds' where ds: "ds = d # ds'" using assms(2) by (cases ds) auto
  with assms(3) have "\<not> js_whitespace d" by (simp add: digit_not_whitespace)
  then have dw: "dropWhile js_whitespace (ws @ ds @ rest) = ds @ rest"
    using assms(1) by (simp add: ds dropWhile_append3 list_all_iff)
  have tw: "takeWhile js_digit (ds @ rest) = ds"
  proof (cases rest)
    case Nil
    with assms(3) show ?thesis by (simp add: list_all_iff)
  next
    case (Cons r rs)
    with assms(4) have "\<not> js_digit r" by simp
    with assms(3) Cons show ?thesis by (simp add: takeWhile_tail list_all_iff)
  qed
  show ?thesis
    using assms(2) by (simp add: match_port_at_def dw tw)
qed

lemma match_port_skip:
  "CHR ''p'' \<notin> set pre \<Longrightarrow> match_port (pre @ t) = match_port t"
  by (induction pre) (auto simp: match_port_at_def)

lemma match_port_found:
  assumes "CHR ''p'' \<notin> set pre" and "list_all js_whitespace ws" and "ds \<noteq> []"
    and "list_all js_digit ds" and "rest = [] \<or> \<not> js_digit (hd rest)"
  shows "match_port (pre @ ''port:'' @ ws @ ds @ rest) = Some ds"
proof -
  have "match_port (''port:'' @ ws @ ds @ rest) = Some ds"
    using match_port_at_here[OF assms(2-5)] by simp
  then show ?thesis
    using match_port_skip[OF assms(1), of "''port:'' @ ws @ ds @ rest"] by simp
qed

text \<open>
  C7, as amended. The port of a record is its port field, as a string, if the field is set
  (truthy); otherwise the digits of the first \<^verbatim>\<open>port:\<close> entry of the file
  config/config/server.yaml under the path of the instance, if the file is there and has
  one; otherwise 2536. The declared type of the instance plays no part: the file read and
  the default are the same for every type. The last part says what the first entry is: in
  a text with no letter p before it, \<^verbatim>\<open>port:\<close>, white space and a run of digits that
  ends the text or is followed by another character.
\<close>

theorem effective_port_priority:
  "(port_truthy (inst_port inst) \<longrightarrow> getInstancePort s inst = js_String (inst_port inst)) \<and>
   (\<not> port_truthy (inst_port inst) \<and>
    map_of (files s) (server_yaml_path inst) = Some content \<and> match_port content = Some m \<longrightarrow>
      getInstancePort s inst = m) \<and>
   (\<not> port_truthy (inst_port inst) \<and>
    (map_of (files s) (server_yaml_path inst) = None \<or>
     map_of (files s) (server_yaml_path inst) = Some content \<and> match_port content = None) \<longrightarrow>
      getInstancePort s inst = ''2536'') \<and>
   getInstancePort s (inst\<lparr>inst_type := t\<rparr>) = getInstancePort s inst \<and>
   (CHR ''p'' \<notin> set pre \<and> list_all js_whitespace ws \<and> ds \<noteq> [] \<and> list_all js_digit ds \<and>
    (rest = [] \<or> \<not> js_digit (hd rest)) \<longrightarrow>
      match_port (pre @ ''port:'' @ ws @ ds @ rest) = Some ds)"
  using match_port_found[of pre ws ds rest]
  by (auto simp: getInstancePort_def server_yaml_path_def)

theorem effective_port_priority_witness:
  "port_truthy (inst_port alpha) \<and> getInstancePort registered alpha = ''3000'' \<and>
   \<not> port_truthy (inst_port legacy) \<and>
   map_of (files yaml_disk) (server_yaml_path legacy) = Some yaml_text \<and>
   match_port yaml_text = Some ''2540'' \<and>
   getInstancePort yaml_disk legacy = ''2540'' \<and>
   map_of (files init_server) (server_yaml_path legacy) = None \<and>
   getInstancePort init_server legacy = ''2536'' \<and>
   match_port (''host: 0.0.0.0'' @ [CHR 0x0A] @ ''port:'' @ '' '' @ ''2540'' @ []) = Some ''2540''"
proof -
  have h1: "port_truthy (inst_port alpha)" by code_simp
  have h2: "js_String (inst_port alpha) = ''3000''" by code_simp
  have h3: "\<not> port_truthy (inst_port legacy)" by code_simp
  have h4: "map_of (files yaml_disk) (server_yaml_path legacy) = Some yaml_text" by code_simp
  have h5: "match_port yaml_text = Some ''2540''" by code_simp
  have h6: "map_of (files init_server) (server_yaml_path legacy) = None" by code_simp
  have h7: "CHR ''p'' \<notin> set (''host: 0.0.0.0'' @ [CHR 0x0A]) \<and> list_all js_whitespace '' '' \<and>
            ''2540'' \<noteq> [] \<and> list_all js_digit ''2540''"
    by code_simp
  show ?thesis
    using h1 h2 h3 h4 h5 h6 h7
      effective_port_priority[where inst = alpha and s = registered]
      effective_port_priority[where inst = legacy and s = yaml_disk and content = yaml_text
        and m = "''2540''"]
      effective_port_priority[where inst = legacy and s = init_server
        and pre = "''host: 0.0.0.0'' @ [CHR 0x0A]" and ws = "'' ''" and ds = "''2540''"
        and rest = "[]"]
    by simp
qed

text \<open>
  Where C7 as stated fails: for an instance of type gsuid without a port field, whose
  configuration file says port 8765, the port reported is 2536, the same as for type
  yunzai; the file of its type is not read, and the default that the import route gives
  this type, 8080, is not used either.
\<close>

theorem effective_port_priority_counterexample:
  "inst_port gsuid_legacy = None \<and> inst_type gsuid_legacy = Some ''gsuid'' \<and>
   map_of (files gsuid_disk) (hd (tl (gsuid_config_paths gsuid_legacy)))
     = Some ''{\"PORT\": 8765}'' \<and>
   getInstancePort gsuid_disk gsuid_legacy = ''2536'' \<and>
   getInstancePort gsuid_disk (gsuid_legacy\<lparr>inst_type := Some ''yunzai''\<rparr>) = ''2536'' \<and>
   import_default_port ''gsuid'' = ''8080''"
  by code_simp

section \<open>The Redis process\<close>

lemma ensure_redis_dir_frame [simp]:
  "redisProcess (ensure_redis_dir s) = redisProcess s"
  "next_handle (ensure_redis_dir s) = next_handle s"
  "startFailed (ensure_redis_dir s) = startFailed s"
  "effects (ensure_redis_dir s) =
     effects s @ (if \<not> existsSync s redisDataDir then [Mkdir redisDataDir] else [])"
  by (simp_all add: ensure_redis_dir_def)

lemma ensure_redis_dir_exists [simp]:
  "existsSync (ensure_redis_dir s) redisDataDir"
  by (simp add: ensure_redis_dir_def existsSync_def add_effect_def)

lemma ensure_redis_dir_again [simp]:
  "existsSync s redisDataDir \<Longrightarrow> ensure_redis_dir s = s"
  by (simp add: ensure_redis_dir_def)

lemma find_redis_path_add_effect [simp]:
  "find_redis_path (add_effect e s) = find_redis_path s"
  by (simp add: find_redis_path_def split: option.splits)

lemma find_redis_path_handles [simp]:
  "find_redis_path (s\<lparr>redisProcess := r, next_handle := n, startFailed := f\<rparr>)
     = find_redis_path s"
  by (simp add: find_redis_path_def existsSync_def split: option.splits)

lemma redis_children_append [simp]:
  "redis_children (es @ fs) = redis_children es @ redis_children fs"
  by (induction es rule: redis_children.induct) simp_all

text \<open>
  While the handle is set, a start request ends in its first turn: it answers with the
  error, starts no \<^verbatim>\<open>taskkill\<close> and never reaches \<^verbatim>\<open>spawn\<close>.
\<close>

lemma redis_start_begin_running:
  assumes "redisProcess s = Some c"
  shows "redis_start_begin s = (Some RedisAlreadyRunning, ensure_redis_dir s)"
  using assms by (simp add: redis_start_begin_def Let_def)

lemma redis_start_begin_idle:
  assumes "redisProcess s = None"
  shows "redis_start_begin s = (None, add_effect taskkill_redis (ensure_redis_dir s))"
  using assms by (simp add: redis_start_begin_def Let_def)

text \<open>The second turn spawns at most once, and assigns the handle when it does.\<close>

lemma redis_start_spawn_found:
  assumes "find_redis_path s = Some p"
  shows "redis_start_spawn False s =
           (Inr (next_handle s),
            add_effect (Spawn (next_handle s) p [''--dir'', redisDataDir] [])
              (s\<lparr>redisProcess := Some (next_handle s), next_handle := Suc (next_handle s),
                 startFailed := AList.update (next_handle s) False (startFailed s)\<rparr>))"
  using assms by (simp add: redis_start_spawn_def Let_def)

lemma redis_start_spawn_effects:
  "effects (snd (redis_start_spawn throws s)) =
     effects s @
     (case find_redis_path s of
        None \<Rightarrow> []
      | Some p \<Rightarrow>
          if throws then [] else [Spawn (next_handle s) p [''--dir'', redisDataDir] []])"
  by (cases "find_redis_path s") (simp_all add: redis_start_spawn_def Let_def)

text \<open>
  A start request whose first two turns follow one another: \<^verbatim>\<open>taskkill\<close> comes before the
  one \<^verbatim>\<open>spawn\<close>, and the handle is the child's.
\<close>

lemma redis_start_alone:
  assumes "redisProcess s = None" and "find_redis_path (ensure_redis_dir s) = Some p"
  shows "effects (redis_run [StartBegins, StartSpawns False] s) =
           effects (ensure_redis_dir s) @
           [taskkill_redis, Spawn (next_handle s) p [''--dir'', redisDataDir] []]"
    and "redisProcess (redis_run [StartBegins, StartSpawns False] s) = Some (next_handle s)"
  using assms
  by (simp_all add: redis_run_def redis_start_begin_idle redis_start_spawn_found)

text \<open>The stop route.\<close>

lemma redis_stop_not_running:
  assumes "redisProcess s = None"
  shows "redis_stop throws s = (Inl RedisNotRunning, s)"
  using assms by (simp add: redis_stop_def)

lemma redis_stop_running:
  assumes "redisProcess s = Some c"
  shows "redis_stop False s =
           (Inr (), broadcastGlobalLog ''[SYSTEM] Redis stopped''
                      ((add_effect (Kill c ''SIGTERM'') s)\<lparr>redisProcess := None\<rparr>))"
  using assms by (simp add: redis_stop_def)

lemma redis_stop_running_effects:
  assumes "redisProcess s = Some c"
  shows "effects (snd (redis_stop False s)) = effects s @ [Kill c ''SIGTERM'']"
    and "redisProcess (snd (redis_stop False s)) = None"
  using assms by (simp_all add: redis_stop_running add_effect_def)

text \<open>The state after two overlapping start requests.\<close>

lemma overlapping_starts_state:
  assumes n: "redisProcess s = None" and f: "find_redis_path (ensure_redis_dir s) = Some p"
  shows "redis_run overlapping_starts s =
           add_effect (Spawn (Suc (next_handle s)) p [''--dir'', redisDataDir] [])
             ((add_effect (Spawn (next_handle s) p [''--dir'', redisDataDir] [])
                 (add_effect taskkill_redis (add_effect taskkill_redis (ensure_redis_dir s))))
              \<lparr>redisProcess := Some (Suc (next_handle s)),
                next_handle := Suc (Suc (next_handle s)),
                startFailed := AList.update (Suc (next_handle s)) False
                                 (AList.update (next_handle s) False (startFailed s))\<rparr>)"
proof -
  let ?s1 = "add_effect taskkill_redis (ensure_redis_dir s)"
  let ?s2 = "add_effect taskkill_redis ?s1"
  let ?s3 = "add_effect (Spawn (next_handle s) p [''--dir'', redisDataDir] [])
               (?s2\<lparr>redisProcess := Some (next_handle s), next_handle := Suc (next_handle s),
                    startFailed := AList.update (next_handle s) False (startFailed s)\<rparr>)"
  have b1: "redis_start_begin s = (None, ?s1)"
    using n by (simp add: redis_start_begin_idle)
  have b2: "redis_start_begin ?s1 = (None, ?s2)"
    using n by (simp add: redis_start_begin_idle)
  have f2: "find_redis_path ?s2 = Some p"
    using f by simp
  have p1: "redis_start_spawn False ?s2 = (Inr (next_handle s), ?s3)"
    using redis_start_spawn_found[OF f2] by simp
  have f3: "find_redis_path ?s3 = Some p"
    using f2 by simp
  have p2: "snd (redis_start_spawn False ?s3) =
              add_effect (Spawn (Suc (next_handle s)) p [''--dir'', redisDataDir] [])
                (?s3\<lparr>redisProcess := Some (Suc (next_handle s)),
                     next_handle := Suc (Suc (next_handle s)),
                     startFailed := AList.update (Suc (next_handle s)) False
                                      (AList.update (next_handle s) False (startFailed s))\<rparr>)"
    using redis_start_spawn_found[OF f3] by simp
  have "redis_run overlapping_starts s = snd (redis_start_spawn False ?s3)"
    by (simp add: redis_run_def overlapping_starts_def b1 b2 p1)
  also have "\<dots> = add_effect (Spawn (Suc (next_handle s)) p [''--dir'', redisDataDir] [])
             (?s2\<lparr>redisProcess := Some (Suc (next_handle s)),
                  next_handle := Suc (Suc (next_handle s)),
                  startFailed := AList.update (Suc (next_handle s)) False
                                   (AList.update (next_handle s) False (startFailed s))\<rparr>
              \<lparr>effects := effects ?s2 @ [Spawn (next_handle s) p [''--dir'', redisDataDir] []]\<rparr>)"
    unfolding p2 by (simp add: add_effect_def)
  finally show ?thesis by (simp add: add_effect_def)
qed

text \<open>
  C9. The server should hold at most one Redis process: a start request made while Redis
  runs should answer with an error and spawn no second process. The start route tests the
  handle in its first turn and assigns it in its second, after it has waited for
  \<^verbatim>\<open>taskkill\<close>. So when no handle is held and Redis is installed, two start requests of
  which the second begins before the first has come back from that wait both pass the
  test, neither is answered with the error, and both spawn: two Redis children have been
  started and none has been signalled or has exited. The handle is that of the second
  child only; both requests answer success after their timers; a stop request then
  signals the second child alone, clears the handle, and a further stop request answers
  that Redis is not running while the first child is still there.
\<close>

theorem overlapping_redis_starts_spawn_twice:
  assumes "redisProcess s = None" and "find_redis_path (ensure_redis_dir s) = Some p"
  shows "fst (redis_start_begin s) = None \<and>
         fst (redis_start_begin (snd (redis_start_begin s))) = None \<and>
         effects (redis_run overlapping_starts s) =
           effects (ensure_redis_dir s) @
           [taskkill_redis, taskkill_redis,
            Spawn (next_handle s) p [''--dir'', redisDataDir] [],
            Spawn (Suc (next_handle s)) p [''--dir'', redisDataDir] []] \<and>
         redis_children (effects (redis_run overlapping_starts s)) =
           redis_children (effects s) @ [next_handle s, Suc (next_handle s)] \<and>
         redisProcess (redis_run overlapping_starts s) = Some (Suc (next_handle s)) \<and>
         fst (redis_start_finish (next_handle s) (redis_run overlapping_starts s)) = Inr () \<and>
         fst (redis_start_finish (Suc (next_handle s))
                (redis_run (overlapping_starts @ [StartFinishes (next_handle s)]) s)) = Inr () \<and>
         effects (redis_run (overlapping_starts @ [StopRequest False]) s) =
           effects (redis_run overlapping_starts s) @ [Kill (Suc (next_handle s)) ''SIGTERM''] \<and>
         fst (redis_stop False (redis_run (overlapping_starts @ [StopRequest False]) s)) =
           Inl RedisNotRunning"
proof -
  let ?t = "redis_run overlapping_starts s"
  note st = overlapping_starts_state[OF assms]
  have b1: "redis_start_begin s = (None, add_effect taskkill_redis (ensure_redis_dir s))"
    using assms(1) by (simp add: redis_start_begin_idle)
  have b2: "fst (redis_start_begin (add_effect taskkill_redis (ensure_redis_dir s))) = None"
    using assms(1) by (simp add: redis_start_begin_idle)
  have eff: "effects ?t =
           effects (ensure_redis_dir s) @
           [taskkill_redis, taskkill_redis,
            Spawn (next_handle s) p [''--dir'', redisDataDir] [],
            Spawn (Suc (next_handle s)) p [''--dir'', redisDataDir] []]"
    unfolding st by simp
  have ch: "redis_children (effects ?t) =
              redis_children (effects s) @ [next_handle s, Suc (next_handle s)]"
    unfolding eff by (simp add: taskkill_redis_def)
  have rp: "redisProcess ?t = Some (Suc (next_handle s))"
    unfolding st by simp
  have sf: "startFailed ?t = AList.update (Suc (next_handle s)) False
                               (AList.update (next_handle s) False (startFailed s))"
    unfolding st by simp
  have m0: "map_of (startFailed ?t) (next_handle s) = Some False"
    unfolding sf by (simp add: update_conv')
  have m1: "map_of (startFailed ?t) (Suc (next_handle s)) = Some False"
    unfolding sf by (simp add: update_conv')
  have fin0: "redis_start_finish (next_handle s) ?t =
                (Inr (), broadcastGlobalLog ''[SYSTEM] Redis started'' ?t)"
    using m0 rp by (simp add: redis_start_finish_def)
  have run_fin: "redis_run (overlapping_starts @ [StartFinishes (next_handle s)]) s =
                   broadcastGlobalLog ''[SYSTEM] Redis started'' ?t"
    using fin0 by (simp add: redis_run_def)
  have fin1: "fst (redis_start_finish (Suc (next_handle s))
                (broadcastGlobalLog ''[SYSTEM] Redis started'' ?t)) = Inr ()"
    using m1 rp by (simp add: redis_start_finish_def)
  have run_stop: "redis_run (overlapping_starts @ [StopRequest False]) s =
                    snd (redis_stop False ?t)"
    by (simp add: redis_run_def)
  show ?thesis
    using b1 b2 eff ch rp fin0 fin1 redis_stop_running_effects[OF rp]
    by (simp add: run_fin run_stop redis_stop_not_running)
qed

theorem overlapping_redis_starts_spawn_twice_witness:
  "redisProcess redis_installed = None \<and>
   find_redis_path (ensure_redis_dir redis_installed) = Some localRedis \<and>
   effects redis_overlapped =
     [Mkdir redisDataDir, taskkill_redis, taskkill_redis,
      Spawn 0 localRedis [''--dir'', redisDataDir] [],
      Spawn 1 localRedis [''--dir'', redisDataDir] []] \<and>
   redis_children (effects redis_overlapped) = [0, 1] \<and>
   redisProcess redis_overlapped = Some 1 \<and>
   fst (redis_start_finish 0 redis_overlapped) = Inr () \<and>
   fst (redis_start_finish 1 (redis_run (overlapping_starts @ [StartFinishes 0]) redis_installed))
     = Inr () \<and>
   effects (redis_run (overlapping_starts @ [StopRequest False]) redis_installed) =
     effects redis_overlapped @ [Kill 1 ''SIGTERM''] \<and>
   fst (redis_stop False (redis_run (overlapping_starts @ [StopRequest False]) redis_installed)) =
     Inl RedisNotRunning"
proof -
  have h1: "redisProcess redis_installed = None" by code_simp
  have h2: "find_redis_path (ensure_redis_dir redis_installed) = Some localRedis" by code_simp
  have h3: "effects (ensure_redis_dir redis_installed) = [Mkdir redisDataDir]" by code_simp
  have h4: "effects redis_installed = [] \<and> next_handle redis_installed = 0" by code_simp
  show ?thesis
    using h1 h2 h3 h4 overlapping_redis_starts_spawn_twice[OF h1 h2]
    by (simp add: redis_overlapped_def taskkill_redis_def)
qed

section \<open>Port conflicts\<close>

lemma port_check_conflict:
  "find (\<lambda>j. inst_id j \<noteq> i \<and> getInstancePort s j = newPort) (instances s) = Some c \<Longrightarrow>
   port_check port_free i newPort s = Some (PortConflict newPort (inst_name c))"
  by (simp add: port_check_def)

lemma port_check_running:
  "map_of (runningProcesses s) i = Some child \<Longrightarrow>
   port_check port_free i newPort s = port_check port_free' i newPort s"
  by (simp add: port_check_def)

lemma port_check_stopped:
  "map_of (runningProcesses s) i = None \<Longrightarrow>
   find (\<lambda>j. inst_id j \<noteq> i \<and> getInstancePort s j = newPort) (instances s) = None \<Longrightarrow>
   port_check port_free i newPort s
     = (if port_free newPort then None else Some (PortInUseBySystem newPort))"
  by (simp add: port_check_def)

lemma port_check_None:
  "port_check port_free i newPort s = None \<Longrightarrow>
   \<forall>j \<in> set (instances s). inst_id j \<noteq> i \<longrightarrow> getInstancePort s j \<noteq> newPort"
  by (auto simp: port_check_def find_None_iff split: option.splits if_splits)

lemma create_validate_accepted:
  assumes "create_validate probes rq s = (Inr acc, s')"
  shows "s' = s"
    and "find (\<lambda>inst. js_String (inst_port inst) = js_String (Some (instancePort acc)))
           (instances s) = None"
    and "port_truthy (Some (instancePort acc))"
  using assms
  by (auto simp: create_validate_def Let_def split: if_splits option.splits)

lemma getInstancePort_truthy:
  "port_truthy (inst_port x) \<Longrightarrow> getInstancePort s x = js_String (inst_port x)"
  by (simp add: getInstancePort_def)

lemma getInstancePort_cong:
  "files s' = files s \<Longrightarrow> getInstancePort s' x = getInstancePort s x"
  by (simp add: getInstancePort_def)

lemma create_register_fields:
  "instances (create_register now acc s) = instances s @
     [\<lparr> inst_id = now, inst_name = instanceName acc, inst_path = installPath acc,
        inst_port = Some (instancePort acc), inst_type = Some (instanceType acc),
        inst_proxy = None \<rparr>]"
  "files (create_register now acc s) = files s"
  by (simp_all add: create_register_def Let_def)

text \<open>
  The create route does keep the ports apart when every record already registered has a
  port field, as every record that the create and import routes write has.
\<close>

lemma create_route_keeps_ports_unique:
  assumes u: "ports_unique s"
    and t: "\<forall>x \<in> set (instances s). port_truthy (inst_port x)"
    and ok: "create_route probes now None rq s = (Inr r, s')"
  shows "ports_unique s'"
proof -
  from ok obtain acc s1 where v: "create_validate probes rq s = (Inr acc, s1)"
    and s': "s' = create_register now acc (s1\<lparr>dirs := installPath acc # dirs s1\<rparr>)"
    by (auto simp: create_route_def split: prod.splits sum.splits)
  note acc = create_validate_accepted[OF v]
  let ?new = "\<lparr> inst_id = now, inst_name = instanceName acc, inst_path = installPath acc,
        inst_port = Some (instancePort acc), inst_type = Some (instanceType acc),
        inst_proxy = None \<rparr>"
  have insts: "instances s' = instances s @ [?new]"
    and files: "files s' = files s"
    by (simp_all add: s' create_register_fields acc(1))
  have old: "getInstancePort s' x = js_String (inst_port x)" if "x \<in> set (instances s)" for x
    using that t by (simp add: getInstancePort_truthy)
  have new: "getInstancePort s' ?new = js_String (Some (instancePort acc))"
    using acc(3) by (simp add: getInstancePort_truthy)
  have apart: "js_String (inst_port x) \<noteq> js_String (Some (instancePort acc))"
    if "x \<in> set (instances s)" for x
    using acc(2) that by (auto simp: find_None_iff)
  have same: "getInstancePort s x = js_String (inst_port x)" if "x \<in> set (instances s)" for x
    using that t by (simp add: getInstancePort_truthy)
  show ?thesis
    unfolding ports_unique_def insts
  proof (intro ballI impI)
    fix a b
    assume a: "a \<in> set (instances s @ [?new])" and b: "b \<in> set (instances s @ [?new])"
      and ne: "inst_id a \<noteq> inst_id b"
    consider "a \<in> set (instances s)" "b \<in> set (instances s)"
      | "a \<in> set (instances s)" "b = ?new"
      | "a = ?new" "b \<in> set (instances s)"
      | "a = ?new" "b = ?new"
      using a b by auto
    then show "getInstancePort s' a \<noteq> getInstancePort s' b"
    proof cases
      case 1
      with u ne have "getInstancePort s a \<noteq> getInstancePort s b"
        by (simp add: ports_unique_def)
      with 1 show ?thesis by (simp add: old same)
    next
      case 2
      then show ?thesis using apart[of a] by (simp add: old new)
    next
      case 3
      then show ?thesis using apart[of b] by (simp add: old new)
    next
      case 4
      with ne show ?thesis by simp
    qed
  qed
qed

lemma getInstancePort_dirs [simp]: "getInstancePort (s\<lparr>dirs := d\<rparr>) x = getInstancePort s x"
  by (simp add: getInstancePort_def)

lemma port_check_dirs [simp]: "port_check port_free i p (s\<lparr>dirs := d\<rparr>) = port_check port_free i p s"
  by (cases "find (\<lambda>j. inst_id j \<noteq> i \<and> getInstancePort s j = p) (instances s)")
     (simp_all add: port_check_def)

text \<open>The state in which the config route checks the port, and its answer to a port.\<close>

lemma config_route_port:
  assumes f: "find (\<lambda>inst. inst_id inst = i) (instances s) = Some inst"
    and p: "port_truthy port"
  shows "fst (config_route port_free new_text i port s)
           = (case port_check port_free i (js_String port) s of
                Some err \<Rightarrow> Inl err | None \<Rightarrow> Inr ())"
    and "port_check port_free i (js_String port) s \<noteq> None \<Longrightarrow>
           instances (snd (config_route port_free new_text i port s)) = instances s \<and>
           files (snd (config_route port_free new_text i port s)) = files s"
    and "port_check port_free i (js_String port) s = None \<Longrightarrow>
           instances (snd (config_route port_free new_text i port s))
             = update_first (\<lambda>j. inst_id j = i) (\<lambda>j. j\<lparr>inst_port := port\<rparr>) (instances s) \<and>
           (\<exists>target. files (snd (config_route port_free new_text i port s))
             = AList.update target new_text (files s) \<and>
             target \<in> set (server_yaml_path inst # gsuid_config_paths inst))"
proof -
  show "fst (config_route port_free new_text i port s)
           = (case port_check port_free i (js_String port) s of
                Some err \<Rightarrow> Inl err | None \<Rightarrow> Inr ())"
    using f p
    by (cases "port_check port_free i (js_String port) s")
       (simp_all add: config_route_def Let_def)
  show "instances (snd (config_route port_free new_text i port s)) = instances s \<and>
        files (snd (config_route port_free new_text i port s)) = files s"
    if "port_check port_free i (js_String port) s \<noteq> None"
    using f p that by (auto simp: config_route_def Let_def)
  show "instances (snd (config_route port_free new_text i port s))
             = update_first (\<lambda>j. inst_id j = i) (\<lambda>j. j\<lparr>inst_port := port\<rparr>) (instances s) \<and>
           (\<exists>target. files (snd (config_route port_free new_text i port s))
             = AList.update target new_text (files s) \<and>
             target \<in> set (server_yaml_path inst # gsuid_config_paths inst))"
    if "port_check port_free i (js_String port) s = None"
    using f p that by (auto simp: config_route_def Let_def gsuid_config_paths_def)
qed

lemma update_first_distinct:
  "distinct (map g xs) \<Longrightarrow>
   update_first (\<lambda>j. g j = i) f xs = map (\<lambda>j. if g j = i then f j else j) xs"
proof (induction xs)
  case Nil
  then show ?case by simp
next
  case (Cons x xs)
  show ?case
  proof (cases "g x = i")
    case True
    with Cons.prems have "i \<notin> g ` set xs" by simp
    then have "\<forall>y \<in> set xs. g y \<noteq> i" by blast
    then have "map (\<lambda>j. if g j = i then f j else j) xs = xs"
      by (simp add: map_idI)
    with True show ?thesis by simp
  next
    case False
    with Cons show ?thesis by simp
  qed
qed

lemma getInstancePort_other_file:
  assumes "files s' = AList.update target new_text (files s)"
    and "port_truthy (inst_port x) \<or> server_yaml_path x \<noteq> target"
  shows "getInstancePort s' x = getInstancePort s x"
  using assms by (auto simp: getInstancePort_def update_conv')

text \<open>
  The config route keeps the ports apart, given that the ids are distinct and that no
  other record without a port field reads the file that the route writes.
\<close>

lemma config_route_keeps_ports_unique:
  assumes u: "ports_unique s"
    and d: "distinct (map inst_id (instances s))"
    and f: "find (\<lambda>inst. inst_id inst = i) (instances s) = Some inst"
    and p: "port_truthy port"
    and ok: "fst (config_route port_free new_text i port s) = Inr ()"
    and h: "\<forall>x \<in> set (instances s). inst_id x \<noteq> i \<longrightarrow>
              port_truthy (inst_port x) \<or>
              server_yaml_path x \<notin> set (server_yaml_path inst # gsuid_config_paths inst)"
  shows "ports_unique (snd (config_route port_free new_text i port s))"
proof -
  let ?s' = "snd (config_route port_free new_text i port s)"
  let ?upd = "\<lambda>j. if inst_id j = i then j\<lparr>inst_port := port\<rparr> else j"
  have pc: "port_check port_free i (js_String port) s = None"
    using ok config_route_port(1)[OF f p, of port_free new_text]
    by (cases "port_check port_free i (js_String port) s") simp_all
  from config_route_port(3)[OF f p pc, of new_text] obtain target where
    insts: "instances ?s' = update_first (\<lambda>j. inst_id j = i) (\<lambda>j. j\<lparr>inst_port := port\<rparr>) (instances s)"
    and files: "files ?s' = AList.update target new_text (files s)"
    and target: "target \<in> set (server_yaml_path inst # gsuid_config_paths inst)"
    by blast
  have insts': "instances ?s' = map ?upd (instances s)"
    unfolding insts by (rule update_first_distinct[OF d])
  have other: "getInstancePort ?s' x = getInstancePort s x"
    if "x \<in> set (instances s)" "inst_id x \<noteq> i" for x
    using h that target by (intro getInstancePort_other_file[OF files]) auto
  have mine: "getInstancePort ?s' (x\<lparr>inst_port := port\<rparr>) = js_String port" for x
    using p by (simp add: getInstancePort_truthy)
  have apart: "getInstancePort s x \<noteq> js_String port"
    if "x \<in> set (instances s)" "inst_id x \<noteq> i" for x
    using port_check_None[OF pc] that by blast
  show ?thesis
    unfolding ports_unique_def insts'
  proof (intro ballI impI)
    fix a' b'
    assume "a' \<in> set (map ?upd (instances s))" and "b' \<in> set (map ?upd (instances s))"
      and ne: "inst_id a' \<noteq> inst_id b'"
    then obtain a b where a: "a \<in> set (instances s)" "a' = ?upd a"
      and b: "b \<in> set (instances s)" "b' = ?upd b"
      by auto
    have ida: "inst_id a' = inst_id a" and idb: "inst_id b' = inst_id b"
      using a b by simp_all
    show "getInstancePort ?s' a' \<noteq> getInstancePort ?s' b'"
    proof (cases "inst_id a = i")
      case True
      with ne ida idb have nb: "inst_id b \<noteq> i" by simp
      with True a b show ?thesis
        using apart[OF b(1) nb] by (simp add: mine other)
    next
      case False
      show ?thesis
      proof (cases "inst_id b = i")
        case True
        with False a b show ?thesis
          using apart[OF a(1) False] by (simp add: mine other)
      next
        case nb: False
        from u a(1) b(1) ne ida idb have "getInstancePort s a \<noteq> getInstancePort s b"
          by (simp add: ports_unique_def)
        with False nb a b show ?thesis by (simp add: other)
      qed
    qed
  qed
qed

text \<open>
  What the config route answers to a port: the conflict with the first other record that
  reports it, by name; otherwise, and only while the instance is not running, what the
  bind test says.
\<close>

lemma config_route_answer:
  assumes f: "find (\<lambda>inst. inst_id inst = i) (instances s) = Some inst"
    and p: "port_truthy port"
  shows "find (\<lambda>j. inst_id j \<noteq> i \<and> getInstancePort s j = js_String port) (instances s) = Some c
           \<Longrightarrow> fst (config_route port_free new_text i port s)
                 = Inl (PortConflict (js_String port) (inst_name c))"
    and "map_of (runningProcesses s) i = Some child
           \<Longrightarrow> fst (config_route port_free new_text i port s)
                 = fst (config_route port_free' new_text i port s)"
    and "map_of (runningProcesses s) i = None \<Longrightarrow>
         find (\<lambda>j. inst_id j \<noteq> i \<and> getInstancePort s j = js_String port) (instances s) = None
           \<Longrightarrow> fst (config_route port_free new_text i port s)
                 = (if port_free (js_String port) then Inr ()
                    else Inl (PortInUseBySystem (js_String port)))"
proof -
  show "fst (config_route port_free new_text i port s)
          = Inl (PortConflict (js_String port) (inst_name c))"
    if "find (\<lambda>j. inst_id j \<noteq> i \<and> getInstancePort s j = js_String port) (instances s) = Some c"
    by (simp add: config_route_port(1)[OF f p] port_check_conflict[OF that])
  show "fst (config_route port_free new_text i port s)
          = fst (config_route port_free' new_text i port s)"
    if "map_of (runningProcesses s) i = Some child"
    by (simp add: config_route_port(1)[OF f p]
        port_check_running[OF that, of port_free _ port_free'])
  show "fst (config_route port_free new_text i port s)
          = (if port_free (js_String port) then Inr ()
             else Inl (PortInUseBySystem (js_String port)))"
    if "map_of (runningProcesses s) i = None"
      and "find (\<lambda>j. inst_id j \<noteq> i \<and> getInstancePort s j = js_String port) (instances s) = None"
    by (simp add: config_route_port(1)[OF f p] port_check_stopped[OF that])
qed

text \<open>
  The create route answers before it installs and registers only after the installation,
  so its check and its registration are two turns of the server: two requests for the same
  free port that are both checked before either is registered are both accepted, and both
  instances are registered on that port.
\<close>

lemma create_check_and_registration_apart:
  "ports_unique registered \<and>
   create_validate all_tools create_delta registered = (Inr accepted_delta, registered) \<and>
   create_validate all_tools create_epsilon registered = (Inr accepted_epsilon, registered) \<and>
   \<not> ports_unique
       (create_register ''1700000000002'' accepted_epsilon
          (create_register ''1700000000001'' accepted_delta registered))"
  by code_simp

text \<open>
  C3. After a successful create or config update no two registered instances should
  report the same port. The config route refuses a port that another record reports, by
  the name of that record, and asks the bind test only while the instance is not running
  (the lemmas above). The create route compares the port asked for with the port field of
  each record, not with the port the record reports: with a record that has no port field
  and whose server.yaml says 2540 on the disk, creating an instance on port 2540 succeeds,
  and two instances with different ids report port 2540.
\<close>

theorem create_port_check_misses_effective_port:
  "ports_unique yaml_disk \<and>
   fst (create_route all_tools ''1700000000000'' None create_2540 yaml_disk)
     = Inr ''Creation started'' \<and>
   map inst_id (instances (snd (create_route all_tools ''1700000000000'' None create_2540 yaml_disk)))
     = [''3'', ''1700000000000''] \<and>
   map (getInstancePort (snd (create_route all_tools ''1700000000000'' None create_2540 yaml_disk)))
     (instances (snd (create_route all_tools ''1700000000000'' None create_2540 yaml_disk)))
     = [''2540'', ''2540''] \<and>
   \<not> ports_unique (snd (create_route all_tools ''1700000000000'' None create_2540 yaml_disk))"
  by code_simp

theorem create_port_check_misses_effective_port_witness:
  "map inst_id
     (instances (snd (create_route all_tools ''1700000000000'' None create_2540 yaml_disk)))
     = [''3'', ''1700000000000''] \<and>
   ''3'' \<noteq> ''1700000000000'' \<and>
   map (getInstancePort (snd (create_route all_tools ''1700000000000'' None create_2540 yaml_disk)))
     (instances (snd (create_route all_tools ''1700000000000'' None create_2540 yaml_disk)))
     = [''2540'', ''2540'']"
  using create_port_check_misses_effective_port by simp

end
